theory Spec2Isabelle
  imports Complex_Main "HOL-Library.Word"
begin

section \<open>Meditative water ripples: the wave field, its disturbances and its shading\<close>

text \<open>
  A shallow embedding of \<^verbatim>\<open>src/main.py\<close>. The height buffers are NumPy arrays of
  shape \<open>(h, w)\<close>; they are modelled as lists of rows. The arithmetic of the source is
  single-precision floating point; here it is the exact arithmetic of \<^typ>\<open>real\<close>, so
  every statement below is about the formulas the code evaluates, not about rounding.
  NumPy arrays are mutable objects that the class shares by reference
  (\<^verbatim>\<open>self.previous = self.current\<close>), so the object carries a store from addresses
  to arrays, and its two attributes are addresses.
\<close>

subsection \<open>NumPy arrays as lists of rows\<close>

type_synonym grid = "real list list"

datatype py_error = ValueError | IndexError

text \<open>\<^verbatim>\<open>np.zeros((h, w))\<close>.\<close>

definition zeros :: "nat \<Rightarrow> nat \<Rightarrow> grid" where
  "zeros rows cols = replicate rows (replicate cols 0)"

text \<open>
  \<^verbatim>\<open>np.roll(a, k)\<close> along one axis: the element at index \<open>i\<close> moves to index
  \<open>(i + k) mod n\<close>, so the result reads index \<open>(i - k) mod n\<close>.
\<close>

definition roll :: "int \<Rightarrow> 'a list \<Rightarrow> 'a list" where
  "roll k xs = (if xs = [] then [] else rotate (nat ((- k) mod int (length xs))) xs)"

definition roll_axis0 :: "int \<Rightarrow> 'a list list \<Rightarrow> 'a list list" where
  "roll_axis0 k g = roll k g"

definition roll_axis1 :: "int \<Rightarrow> 'a list list \<Rightarrow> 'a list list" where
  "roll_axis1 k g = map (roll k) g"

text \<open>Elementwise \<open>+\<close> and \<open>-\<close> of two arrays of one shape, and a scalar times an array.\<close>

definition add_grid :: "grid \<Rightarrow> grid \<Rightarrow> grid" where
  "add_grid a b = map2 (map2 (+)) a b"

definition sub_grid :: "grid \<Rightarrow> grid \<Rightarrow> grid" where
  "sub_grid a b = map2 (map2 (-)) a b"

definition scale_grid :: "real \<Rightarrow> grid \<Rightarrow> grid" where
  "scale_grid k a = map (map ((*) k)) a"

text \<open>An array has shape \<open>(rows, cols)\<close>.\<close>

definition has_shape :: "nat \<Rightarrow> nat \<Rightarrow> 'a list list \<Rightarrow> bool" where
  "has_shape rows cols g \<longleftrightarrow> length g = rows \<and> list_all (\<lambda>r. length r = cols) g"

subsection \<open>The wave field: class Ripples\<close>

definition DAMPING :: real where
  "DAMPING = 0.995"

text \<open>The expression bound to \<^verbatim>\<open>lap\<close> in \<^verbatim>\<open>Ripples.step\<close>.\<close>

definition lap :: "grid \<Rightarrow> grid" where
  "lap c =
     sub_grid
       (add_grid
         (add_grid
           (add_grid (roll_axis0 1 c) (roll_axis0 (- 1) c))
           (roll_axis1 1 c))
         (roll_axis1 (- 1) c))
       (scale_grid 4 c)"

text \<open>The array bound to \<^verbatim>\<open>new\<close>, after \<^verbatim>\<open>new *= DAMPING\<close>.\<close>

definition wave_new :: "grid \<Rightarrow> grid \<Rightarrow> grid" where
  "wave_new c p =
     scale_grid DAMPING
       (add_grid (sub_grid (scale_grid 2 c) p) (scale_grid 0.5 (lap c)))"

type_synonym addr = nat

record ripples =
  w :: int
  h :: int
  current :: addr
  previous :: addr
  store :: "addr \<Rightarrow> grid"
  fresh :: addr

text \<open>The arrays the two attributes point to.\<close>

definition current_grid :: "ripples \<Rightarrow> grid" where
  "current_grid s = store s (current s)"

definition previous_grid :: "ripples \<Rightarrow> grid" where
  "previous_grid s = store s (previous s)"

text \<open>
  \<^verbatim>\<open>Ripples.__init__\<close>: two freshly allocated zero arrays. \<^verbatim>\<open>np.zeros\<close> raises
  ValueError on a negative dimension.
\<close>

definition Ripples :: "int \<Rightarrow> int \<Rightarrow> py_error + ripples" where
  "Ripples W H =
     (if W < 0 \<or> H < 0 then Inl ValueError
      else Inr \<lparr> w = W, h = H, current = 0, previous = 1,
                 store = (\<lambda>_. [])(0 := zeros (nat H) (nat W), 1 := zeros (nat H) (nat W)),
                 fresh = 2 \<rparr>)"

text \<open>
  \<^verbatim>\<open>Ripples.step\<close>: \<^verbatim>\<open>new\<close> is a newly allocated array; \<^verbatim>\<open>previous\<close> takes the
  reference held by \<^verbatim>\<open>current\<close>, and \<^verbatim>\<open>current\<close> the reference to \<^verbatim>\<open>new\<close>.
\<close>

definition step :: "ripples \<Rightarrow> ripples" where
  "step s =
     (let new = wave_new (store s (current s)) (store s (previous s));
          a = fresh s
      in s \<lparr> previous := current s, current := a,
             store := (store s)(a := new), fresh := a + 1 \<rparr>)"

text \<open>
  \<^verbatim>\<open>a[y, x] += m\<close> on an array, in place. The caller has checked \<open>0 \<le> y\<close> and
  \<open>0 \<le> x\<close>; an index beyond the array raises IndexError.
\<close>

definition add_at :: "grid \<Rightarrow> int \<Rightarrow> int \<Rightarrow> real \<Rightarrow> py_error + grid" where
  "add_at g y x m =
     (if nat y < length g \<and> nat x < length (g ! nat y)
      then Inr (g[nat y := (g ! nat y)[nat x := g ! nat y ! nat x + m]])
      else Inl IndexError)"

text \<open>\<^verbatim>\<open>Ripples.disturb\<close>: the update writes into the array \<^verbatim>\<open>current\<close> points to.\<close>

definition disturb :: "int \<Rightarrow> int \<Rightarrow> real \<Rightarrow> ripples \<Rightarrow> py_error + ripples" where
  "disturb x y magnitude s =
     (if 0 \<le> x \<and> x < w s \<and> 0 \<le> y \<and> y < h s
      then (case add_at (store s (current s)) y x magnitude of
              Inl e \<Rightarrow> Inl e
            | Inr g \<Rightarrow> Inr (s \<lparr> store := (store s)(current s := g) \<rparr>))
      else Inr s)"

text \<open>
  The states the class can be in: the two attributes point to distinct allocated arrays
  of shape \<open>(h, w)\<close>. The constructor establishes this and both methods keep it.
\<close>

definition wf :: "ripples \<Rightarrow> bool" where
  "wf s \<longleftrightarrow>
     0 \<le> w s \<and> 0 \<le> h s \<and>
     current s \<noteq> previous s \<and> current s < fresh s \<and> previous s < fresh s \<and>
     has_shape (nat (h s)) (nat (w s)) (store s (current s)) \<and>
     has_shape (nat (h s)) (nat (w s)) (store s (previous s))"

text \<open>Wraparound index: \<open>i mod n\<close> for a possibly negative \<open>i\<close>.\<close>

definition wrap :: "int \<Rightarrow> nat \<Rightarrow> nat" where
  "wrap i n = nat (i mod int n)"

text \<open>
  The 4-neighbour Laplacian with toroidal lookup, as the specification words it: the sum
  of the four orthogonal neighbours minus four times the centre.
\<close>

definition toroidal_laplacian :: "grid \<Rightarrow> nat \<Rightarrow> nat \<Rightarrow> nat \<Rightarrow> nat \<Rightarrow> real" where
  "toroidal_laplacian c rows cols y x =
     c ! wrap (int y - 1) rows ! x + c ! wrap (int y + 1) rows ! x
     + c ! y ! wrap (int x - 1) cols + c ! y ! wrap (int x + 1) cols
     - 4 * c ! y ! x"

text \<open>A small field used to exercise the theorems: 2 rows, 3 columns.\<close>

definition demo_field :: ripples where
  "demo_field = \<lparr> w = 3, h = 2, current = 0, previous = 1,
          store = (\<lambda>_. [])(0 := [[1, 2, 3], [4, 5, 6]], 1 := [[0, 0, 0], [1, 1, 1]]),
          fresh = 2 \<rparr>"

subsection \<open>The main loop of \<^verbatim>\<open>run\<close>: state and event handlers\<close>

definition WIDTH :: int where
  "WIDTH = 800"

definition HEIGHT :: int where
  "HEIGHT = 600"

text \<open>
  The \<^verbatim>\<open>random\<close> module. \<^verbatim>\<open>random.uniform(a, b)\<close> is \<open>a + (b - a) * random()\<close>;
  \<^verbatim>\<open>random.randint(a, b)\<close> returns an integer \<open>N\<close> with \<open>a \<le> N \<le> b\<close>. The generator's
  raw output is an argument of the model: every result the call can give arises from
  some raw output, and nothing is said about how likely it is.
\<close>

definition uniform :: "real \<Rightarrow> real \<Rightarrow> real \<Rightarrow> real" where
  "uniform a b u = a + (b - a) * u"

definition randint :: "int \<Rightarrow> int \<Rightarrow> nat \<Rightarrow> int" where
  "randint a b e = a + int (e mod nat (b - a + 1))"

text \<open>
  Class \<^verbatim>\<open>Particle\<close>. Its attributes \<^verbatim>\<open>x, y, vx, vy, life, color\<close> carry the prefix
  \<open>p_\<close> here.
\<close>

record particle =
  p_x :: real
  p_y :: real
  p_vx :: real
  p_vy :: real
  p_life :: int
  p_color :: "nat \<times> nat \<times> nat"

definition Particle :: "real \<Rightarrow> real \<Rightarrow> nat \<times> nat \<times> nat \<Rightarrow> real \<Rightarrow> real \<Rightarrow> particle" where
  "Particle px py col u1 u2 =
     \<lparr> p_x = px, p_y = py, p_vx = uniform (- 2) 2 u1, p_vy = uniform (- 5) (- 1) u2,
       p_life = 60, p_color = col \<rparr>"

definition particle_step :: "particle \<Rightarrow> particle" where
  "particle_step p =
     (let vy' = p_vy p + 0.2 in
      p \<lparr> p_vy := vy', p_x := p_x p + p_vx p, p_y := p_y p + vy', p_life := p_life p - 1 \<rparr>)"

text \<open>The local variables of \<^verbatim>\<open>run\<close> that live across iterations of the loop.\<close>

record app =
  ripples :: ripples
  particles :: "particle list"
  normal_shading :: bool
  audio_enabled :: bool
  intensity :: real
  paused :: bool
  running :: bool
  last_mouse :: "(int \<times> int) option"
  day_time :: real

datatype key = K_m | K_a | K_PLUS | K_EQUALS | K_MINUS | K_p | K_o | K_other

datatype event = QUIT | MOUSEBUTTONDOWN | MOUSEMOTION | MOUSEBUTTONUP | KEYDOWN key | OTHER

text \<open>
  What a handler reads from outside while it runs: \<^verbatim>\<open>pygame.mouse.get_pos()\<close>,
  \<^verbatim>\<open>pygame.mouse.get_pressed()[0]\<close>, and the raw outputs of the random generator.
\<close>

record polled =
  mouse_pos :: "int \<times> int"
  pressed :: bool
  draws :: "nat \<Rightarrow> real"

text \<open>\<^verbatim>\<open>math.hypot(dx, dy)\<close>.\<close>

definition hypot :: "int \<Rightarrow> int \<Rightarrow> real" where
  "hypot dx dy = sqrt (real_of_int dx * real_of_int dx + real_of_int dy * real_of_int dy)"

text \<open>
  The magnitude the \<^verbatim>\<open>MOUSEMOTION\<close> branch passes to \<^verbatim>\<open>disturb\<close>:
  \<^verbatim>\<open>mag = min(100, math.hypot(dx, dy))\<close>, then \<^verbatim>\<open>mag * 0.5\<close>.
\<close>

definition drag_magnitude :: "int \<Rightarrow> int \<Rightarrow> real" where
  "drag_magnitude dx dy = (let mag = min 100 (hypot dx dy) in mag * 0.5)"

text \<open>The \<^verbatim>\<open>KEYDOWN\<close> branch. Saving a screenshot (\<^verbatim>\<open>K_o\<close>) changes no variable.\<close>

definition handle_key :: "key \<Rightarrow> app \<Rightarrow> app" where
  "handle_key k a =
     (case k of
        K_m \<Rightarrow> a \<lparr> normal_shading := \<not> normal_shading a \<rparr>
      | K_a \<Rightarrow> a \<lparr> audio_enabled := \<not> audio_enabled a \<rparr>
      | K_PLUS \<Rightarrow> a \<lparr> intensity := min 5.0 (intensity a + 0.1) \<rparr>
      | K_EQUALS \<Rightarrow> a \<lparr> intensity := min 5.0 (intensity a + 0.1) \<rparr>
      | K_MINUS \<Rightarrow> a \<lparr> intensity := max 0.1 (intensity a - 0.1) \<rparr>
      | K_p \<Rightarrow> a \<lparr> paused := \<not> paused a \<rparr>
      | K_o \<Rightarrow> a
      | K_other \<Rightarrow> a)"

text \<open>
  One pass of the body of \<^verbatim>\<open>for event in pygame.event.get()\<close>. An exception raised
  by \<^verbatim>\<open>disturb\<close> would leave the loop, so it is the result.
\<close>

definition handle_event :: "event \<Rightarrow> polled \<Rightarrow> app \<Rightarrow> py_error + app" where
  "handle_event ev inp a =
     (case ev of
        QUIT \<Rightarrow> Inr (a \<lparr> running := False \<rparr>)
      | MOUSEBUTTONDOWN \<Rightarrow>
          (case mouse_pos inp of (mx, my) \<Rightarrow>
             (case disturb mx my 50 (ripples a) of
                Inl e \<Rightarrow> Inl e
              | Inr r \<Rightarrow>
                  Inr (a \<lparr> ripples := r,
                          particles := particles a @
                            map (\<lambda>i. Particle (real_of_int mx) (real_of_int my) (255, 255, 255)
                                       (draws inp (2 * i)) (draws inp (2 * i + 1)))
                                [0..<8] \<rparr>)))
      | MOUSEMOTION \<Rightarrow>
          (if pressed inp then
             (case mouse_pos inp of (mx, my) \<Rightarrow>
                (case last_mouse a of
                   None \<Rightarrow> Inr (a \<lparr> last_mouse := Some (mx, my) \<rparr>)
                 | Some lm \<Rightarrow>
                     (let dx = mx - fst lm; dy = my - snd lm in
                      case disturb mx my (drag_magnitude dx dy) (ripples a) of
                        Inl e \<Rightarrow> Inl e
                      | Inr r \<Rightarrow> Inr (a \<lparr> ripples := r, last_mouse := Some (mx, my) \<rparr>))))
           else Inr a)
      | MOUSEBUTTONUP \<Rightarrow> Inr (a \<lparr> last_mouse := None \<rparr>)
      | KEYDOWN k \<Rightarrow> Inr (handle_key k a)
      | OTHER \<Rightarrow> Inr a)"

subsection \<open>The day/night cycle\<close>

text \<open>\<^verbatim>\<open>day_time += 0.005\<close> and \<^verbatim>\<open>t = (math.sin(day_time) + 1) / 2\<close>.\<close>

definition advance_day :: "app \<Rightarrow> app" where
  "advance_day a = a \<lparr> day_time := day_time a + 0.005 \<rparr>"

definition blend_factor :: "real \<Rightarrow> real" where
  "blend_factor phase = (sin phase + 1) / 2"

subsection \<open>Audio-driven disturbances\<close>

text \<open>
  The loudness of the tick: \<^verbatim>\<open>audio_level = 0.0\<close>, then the maximum with every sample
  the queue holds.
\<close>

definition drain_audio :: "real list \<Rightarrow> real" where
  "drain_audio samples = foldl max 0.0 samples"

text \<open>Python's \<^verbatim>\<open>int(x)\<close> on a float: truncation toward zero.\<close>

definition py_int :: "real \<Rightarrow> int" where
  "py_int v = (if 0 \<le> v then \<lfloor>v\<rfloor> else \<lceil>v\<rceil>)"

text \<open>
  The calls of \<^verbatim>\<open>ripples.disturb\<close> the audio block makes in one tick, in order, as
  triples \<open>(x, y, magnitude)\<close>; \<open>ent\<close> gives the raw outputs of the random generator.
\<close>

definition audio_calls :: "bool \<Rightarrow> real \<Rightarrow> real \<Rightarrow> (nat \<Rightarrow> nat) \<Rightarrow> (int \<times> int \<times> real) list" where
  "audio_calls enabled audio_level inten ent =
     (if enabled \<and> audio_level > 0.01
      then map (\<lambda>i. (randint 0 (WIDTH - 1) (ent (2 * i)),
                     randint 0 (HEIGHT - 1) (ent (2 * i + 1)),
                     audio_level * 200 * inten))
               [0..<nat (py_int (min 10 (audio_level * 200)))]
      else [])"

fun disturb_all :: "(int \<times> int \<times> real) list \<Rightarrow> ripples \<Rightarrow> py_error + ripples" where
  "disturb_all [] s = Inr s"
| "disturb_all ((x, y, m) # cs) s =
     (case disturb x y m s of Inl e \<Rightarrow> Inl e | Inr s' \<Rightarrow> disturb_all cs s')"

definition audio_burst :: "real \<Rightarrow> (nat \<Rightarrow> nat) \<Rightarrow> app \<Rightarrow> py_error + app" where
  "audio_burst audio_level ent a =
     (case disturb_all (audio_calls (audio_enabled a) audio_level (intensity a) ent) (ripples a) of
        Inl e \<Rightarrow> Inl e
      | Inr r \<Rightarrow> Inr (a \<lparr> ripples := r \<rparr>))"

subsection \<open>Shading: from the height map to the RGB image\<close>

text \<open>\<^verbatim>\<open>np.clip(v, lo, hi)\<close>: \<open>minimum(hi, maximum(v, lo))\<close>.\<close>

definition clip :: "real \<Rightarrow> real \<Rightarrow> real \<Rightarrow> real" where
  "clip v lo hi = min hi (max v lo)"

text \<open>
  \<^verbatim>\<open>np.gradient\<close> with unit spacing and its default \<^verbatim>\<open>edge_order=1\<close>, along one
  axis of length \<open>n \<ge> 2\<close>: central differences \<open>(f[i+1] - f[i-1]) / 2\<close> in the interior,
  the one-sided differences \<open>f[1] - f[0]\<close> and \<open>f[n-1] - f[n-2]\<close> at the two ends.
\<close>

definition gradient1 :: "real list \<Rightarrow> real list" where
  "gradient1 f =
     (let n = length f in
      map (\<lambda>i. if i = 0 then f ! 1 - f ! 0
               else if i = n - 1 then f ! (n - 1) - f ! (n - 2)
               else (f ! (i + 1) - f ! (i - 1)) / 2)
          [0..<n])"

definition gradient_axis1 :: "grid \<Rightarrow> grid" where
  "gradient_axis1 g = map gradient1 g"

definition gradient_axis0 :: "grid \<Rightarrow> grid" where
  "gradient_axis0 g =
     (let n = length g in
      map (\<lambda>i. if i = 0 then map2 (-) (g ! 1) (g ! 0)
               else if i = n - 1 then map2 (-) (g ! (n - 1)) (g ! (n - 2))
               else map (\<lambda>v. v / 2) (map2 (-) (g ! (i + 1)) (g ! (i - 1))))
          [0..<n])"

text \<open>
  \<^verbatim>\<open>np.gradient(a)\<close> of a 2-D array: the pair (gradient along axis 0, gradient along
  axis 1); ValueError when an axis has fewer than two elements.
\<close>

definition np_gradient :: "grid \<Rightarrow> py_error + (grid \<times> grid)" where
  "np_gradient g =
     (if length g < 2 \<or> (\<exists>r \<in> set g. length r < 2) then Inl ValueError
      else Inr (gradient_axis0 g, gradient_axis1 g))"

text \<open>The light direction, normalised: \<^verbatim>\<open>lx /= lnorm; ly /= lnorm; lz /= lnorm\<close>.\<close>

definition light :: "real \<times> real \<times> real" where
  "light =
     (let lx = 0.5; ly = - 0.5; lz = 1.0;
          lnorm = sqrt (lx * lx + ly * ly + lz * lz)
      in (lx / lnorm, ly / lnorm, lz / lnorm))"

text \<open>
  One cell of \<^verbatim>\<open>dot\<close> in the branch \<^verbatim>\<open>if normal_shading\<close>, from the cell's entries
  of \<^verbatim>\<open>gx\<close> and \<^verbatim>\<open>gy\<close>.
  The literal \<open>0.00000001\<close> is the source's \<^verbatim>\<open>1e-8\<close>.
\<close>

definition shade_cell :: "real \<Rightarrow> real \<Rightarrow> real" where
  "shade_cell gxv gyv =
     (let nx = - gxv; ny = - gyv; nz = 1 * 0.5;
          norm = sqrt (nx * nx + ny * ny + nz * nz) + 0.00000001;
          nx = nx / norm; ny = ny / norm; nz = nz / norm
      in case light of (lx, ly, lz) \<Rightarrow> clip (nx * lx + ny * ly + nz * lz) 0.0 1.0)"

text \<open>The array \<^verbatim>\<open>dot\<close>: the lighting scalar of every cell.\<close>

definition lighting :: "bool \<Rightarrow> grid \<Rightarrow> py_error + grid" where
  "lighting shading height_map =
     (if shading then
        (case np_gradient height_map of
           Inl e \<Rightarrow> Inl e
         | Inr (gy, gx) \<Rightarrow> Inr (map2 (map2 shade_cell) gx gy))
      else Inr (map (map (\<lambda>_. 1 * 0.7)) height_map))"

text \<open>\<^verbatim>\<open>base_col = (1 - tcol) * day_palette + tcol * night_palette\<close>.\<close>

definition base_col :: "real \<Rightarrow> real \<times> real \<times> real" where
  "base_col tcol =
     ((1 - tcol) * 200 + tcol * 20, (1 - tcol) * 230 + tcol * 30, (1 - tcol) * 255 + tcol * 60)"

text \<open>
  \<^verbatim>\<open>np.clip(shaded, 0, 255).astype(np.uint8)\<close> on one channel: the value lies in
  \<open>[0, 255]\<close> and the cast drops its fraction.
\<close>

definition to_uint8 :: "real \<Rightarrow> 8 word" where
  "to_uint8 v = word_of_int \<lfloor>clip v 0 255\<rfloor>"

text \<open>One pixel of \<^verbatim>\<open>shaded\<close>, from the cell's height and lighting scalar.\<close>

definition shade_pixel :: "real \<times> real \<times> real \<Rightarrow> real \<Rightarrow> real \<Rightarrow> real \<Rightarrow> 8 word \<times> 8 word \<times> 8 word" where
  "shade_pixel col inten hv d =
     (let hnorm = clip (hv * inten / 10.0) (- 1.0) 1.0 in
      case col of (r, g, b) \<Rightarrow>
        (to_uint8 (r + 60 * hnorm + d * 80.0),
         to_uint8 (g + 80 * hnorm + d * 80.0),
         to_uint8 (b + 120 * (- hnorm) + d * 80.0)))"

type_synonym image = "(8 word \<times> 8 word \<times> 8 word) list list"

text \<open>
  The rendering block of the loop body, from \<^verbatim>\<open>height_map = ripples.current\<close> to
  \<^verbatim>\<open>shaded\<close>. \<^verbatim>\<open>base_rgb\<close> has the shape \<open>(rows, cols, 3)\<close> of the window; the model
  covers a height map of that shape (the only one \<^verbatim>\<open>run\<close> creates) and gives
  ValueError for any other, where NumPy would still broadcast an axis of length one.
\<close>

definition render :: "nat \<Rightarrow> nat \<Rightarrow> grid \<Rightarrow> real \<Rightarrow> real \<Rightarrow> bool \<Rightarrow> py_error + image" where
  "render rows cols height_map t inten shading =
     (case lighting shading height_map of
        Inl e \<Rightarrow> Inl e
      | Inr dot \<Rightarrow>
          if has_shape rows cols height_map
          then Inr (map2 (map2 (shade_pixel (base_col t) inten)) height_map dot)
          else Inl ValueError)"

text \<open>The frame the loop body draws in a state, before particles and text are drawn over it.\<close>

definition frame :: "app \<Rightarrow> py_error + image" where
  "frame a =
     render (nat HEIGHT) (nat WIDTH) (current_grid (ripples a))
       (blend_factor (day_time a)) (intensity a) (normal_shading a)"

text \<open>
  The lighting scalar as the specification words it: the dot product, clamped to
  \<open>[0, 1]\<close>, of the normalised light direction \<open>(0.5, -0.5, 1.0)\<close> with the normalised
  surface normal \<open>(-gx, -gy, 0.5)\<close>; and the central difference of the two neighbours
  of a cell along an axis.
\<close>

definition normalize3 :: "real \<times> real \<times> real \<Rightarrow> real \<times> real \<times> real" where
  "normalize3 v =
     (case v of (a, b, c) \<Rightarrow>
        (a / sqrt (a * a + b * b + c * c), b / sqrt (a * a + b * b + c * c),
         c / sqrt (a * a + b * b + c * c)))"

definition dot3 :: "real \<times> real \<times> real \<Rightarrow> real \<times> real \<times> real \<Rightarrow> real" where
  "dot3 u v = (case u of (a, b, c) \<Rightarrow> case v of (d, e, f) \<Rightarrow> a * d + b * e + c * f)"

definition claimed_lighting :: "real \<Rightarrow> real \<Rightarrow> real" where
  "claimed_lighting gxv gyv =
     clip (dot3 (normalize3 (0.5, - 0.5, 1.0)) (normalize3 (- gxv, - gyv, 0.5))) 0 1"

definition central_difference :: "real \<Rightarrow> real \<Rightarrow> real" where
  "central_difference before after = (after - before) / 2"

text \<open>
  What the code takes for the gradient at index \<open>i\<close> of an axis holding \<open>f\<close>: the central
  difference inside, a one-sided difference at either end.
\<close>

definition axis_gradient :: "(nat \<Rightarrow> real) \<Rightarrow> nat \<Rightarrow> nat \<Rightarrow> real" where
  "axis_gradient f n i =
     (if i = 0 then f 1 - f 0
      else if i = n - 1 then f (n - 1) - f (n - 2)
      else central_difference (f (i - 1)) (f (i + 1)))"

text \<open>
  The normal the code uses: \<open>(-gx, -gy, 0.5)\<close> divided by its length plus \<open>1e-8\<close>.
\<close>

definition guarded_normal :: "real \<Rightarrow> real \<Rightarrow> real \<times> real \<times> real" where
  "guarded_normal gxv gyv =
     (let len = sqrt (gxv * gxv + gyv * gyv + 0.25) + 0.00000001
      in (- gxv / len, - gyv / len, 0.5 / len))"

text \<open>A height map with three equal rows, used to exercise the shading at an edge cell.\<close>

definition ridge :: grid where
  "ridge = [[2, 0, 2], [2, 0, 2], [2, 0, 2]]"

text \<open>A loop state over the small field, with a recorded pointer sample.\<close>

definition demo_app :: app where
  "demo_app = \<lparr> ripples = demo_field, particles = [], normal_shading = True,
      audio_enabled = True, intensity = 1.0, paused = False, running = True,
      last_mouse = Some (- 1, - 3), day_time = 0 \<rparr>"

text \<open>
  Two loop states over the full window that agree on the height map, the blend factor,
  the intensity and the shading flag, and differ in everything else.
\<close>

definition still_app :: app where
  "still_app = \<lparr> ripples = \<lparr> w = WIDTH, h = HEIGHT, current = 0, previous = 1,
         store = (\<lambda>_. [])(0 := zeros (nat HEIGHT) (nat WIDTH), 1 := zeros (nat HEIGHT) (nat WIDTH)),
         fresh = 2 \<rparr>,
      particles = [], normal_shading = False,
      audio_enabled = True, intensity = 1.0, paused = False, running = True,
      last_mouse = None, day_time = 0 \<rparr>"

definition busy_app :: app where
  "busy_app = \<lparr> ripples = \<lparr> w = WIDTH, h = HEIGHT, current = 4, previous = 3,
         store = (\<lambda>_. [])(4 := zeros (nat HEIGHT) (nat WIDTH), 3 := replicate (nat HEIGHT) (replicate (nat WIDTH) 1)),
         fresh = 5 \<rparr>,
      particles = [Particle 3 4 (255, 255, 255) 0 0], normal_shading = False,
      audio_enabled = False, intensity = 1.0, paused = True, running = True,
      last_mouse = Some (3, 4), day_time = 2 * pi \<rparr>"

subsection \<open>Energy of the wave field\<close>

text \<open>
  The total field energy of the specification: the sum of the squared cell values of an
  array.
\<close>

definition energy :: "grid \<Rightarrow> real" where
  "energy g = (\<Sum>r\<leftarrow>g. \<Sum>v\<leftarrow>r. v\<^sup>2)"

text \<open>The sum over all cells of the product of two arrays of one shape.\<close>

definition inner_grid :: "grid \<Rightarrow> grid \<Rightarrow> real" where
  "inner_grid a b = (\<Sum>(r, s)\<leftarrow>zip a b. \<Sum>(u, v)\<leftarrow>zip r s. u * v)"

text \<open>The sum of the four rolled copies of an array in \<^verbatim>\<open>lap\<close>.\<close>

definition neighbour_sum :: "grid \<Rightarrow> grid" where
  "neighbour_sum c =
     add_grid
       (add_grid
         (add_grid (roll_axis0 1 c) (roll_axis0 (- 1) c))
         (roll_axis1 1 c))
       (roll_axis1 (- 1) c)"

text \<open>
  The energy of the leapfrog scheme for a pair (current, previous): the two sums of
  squares, the second weighted by the damping, minus the damped coupling of \<open>current\<close>
  with half the neighbour sum of \<open>previous\<close>.
\<close>

definition leapfrog_energy :: "grid \<Rightarrow> grid \<Rightarrow> real" where
  "leapfrog_energy c p =
     energy c + DAMPING * energy p
     - DAMPING * inner_grid c (scale_grid 0.5 (neighbour_sum p))"

text \<open>The four toroidal neighbours of a cell, for an array given as a function of its indices.\<close>

definition neighbours :: "nat \<Rightarrow> nat \<Rightarrow> (nat \<Rightarrow> nat \<Rightarrow> real) \<Rightarrow> nat \<Rightarrow> nat \<Rightarrow> real" where
  "neighbours rows cols f y x =
     f (wrap (int y - 1) rows) x + f (wrap (int y + 1) rows) x
     + f y (wrap (int x - 1) cols) + f y (wrap (int x + 1) cols)"

text \<open>
  How many of the calls \<open>(x, y, magnitude)\<close> in a list are aimed at the cell in column
  \<open>x\<close> of row \<open>y\<close>.
\<close>

definition hits :: "nat \<Rightarrow> nat \<Rightarrow> (int \<times> int \<times> real) list \<Rightarrow> nat" where
  "hits x y cs = length (filter (\<lambda>c. fst c = int x \<and> fst (snd c) = int y) cs)"

section \<open>Properties of the arrays\<close>

lemma has_shape_nth:
  "has_shape rows cols g \<Longrightarrow> y < rows \<Longrightarrow> length (g ! y) = cols"
  by (simp add: has_shape_def list_all_length)

lemma has_shape_length: "has_shape rows cols g \<Longrightarrow> length g = rows"
  by (simp add: has_shape_def)

lemma has_shape_zeros: "has_shape rows cols (zeros rows cols)"
  by (simp add: has_shape_def zeros_def list_all_length)

lemma length_roll: "length (roll k xs) = length xs"
  by (simp add: roll_def)

lemma nth_roll:
  assumes "i < length xs"
  shows "roll k xs ! i = xs ! wrap (int i - k) (length xs)"
proof -
  let ?n = "length xs"
  have n: "0 < int ?n" using assms by auto
  have nz: "xs \<noteq> []" using assms by auto
  have m: "0 \<le> (- k) mod int ?n" using n by simp
  have "(nat ((- k) mod int ?n) + i) mod ?n = nat ((int i - k) mod int ?n)"
  proof -
    have "int ((nat ((- k) mod int ?n) + i) mod ?n) = (((- k) mod int ?n) + int i) mod int ?n"
      using m by (simp add: zmod_int)
    also have "\<dots> = ((- k) + int i) mod int ?n"
      by (simp add: mod_add_left_eq)
    also have "\<dots> = (int i - k) mod int ?n"
      by (simp add: algebra_simps)
    finally show ?thesis by linarith
  qed
  then show ?thesis
    using assms nz by (simp add: roll_def nth_rotate wrap_def)
qed

lemma wrap_less: "0 < n \<Longrightarrow> wrap i n < n"
  by (simp add: wrap_def nat_less_iff)

lemma has_shape_roll_axis0: "has_shape rows cols g \<Longrightarrow> has_shape rows cols (roll_axis0 k g)"
  by (auto simp: has_shape_def roll_axis0_def roll_def list_all_iff)

lemma has_shape_roll_axis1: "has_shape rows cols g \<Longrightarrow> has_shape rows cols (roll_axis1 k g)"
  by (auto simp: has_shape_def roll_axis1_def length_roll list_all_iff)

lemma has_shape_add_grid:
  "has_shape rows cols a \<Longrightarrow> has_shape rows cols b \<Longrightarrow> has_shape rows cols (add_grid a b)"
  by (auto simp: has_shape_def add_grid_def list_all_length)

lemma has_shape_sub_grid:
  "has_shape rows cols a \<Longrightarrow> has_shape rows cols b \<Longrightarrow> has_shape rows cols (sub_grid a b)"
  by (auto simp: has_shape_def sub_grid_def list_all_length)

lemma has_shape_scale_grid:
  "has_shape rows cols a \<Longrightarrow> has_shape rows cols (scale_grid k a)"
  by (auto simp: has_shape_def scale_grid_def list_all_length)

lemma nth_add_grid:
  "has_shape rows cols a \<Longrightarrow> has_shape rows cols b \<Longrightarrow> y < rows \<Longrightarrow> x < cols \<Longrightarrow>
   add_grid a b ! y ! x = a ! y ! x + b ! y ! x"
  by (simp add: has_shape_def add_grid_def list_all_length)

lemma nth_sub_grid:
  "has_shape rows cols a \<Longrightarrow> has_shape rows cols b \<Longrightarrow> y < rows \<Longrightarrow> x < cols \<Longrightarrow>
   sub_grid a b ! y ! x = a ! y ! x - b ! y ! x"
  by (simp add: has_shape_def sub_grid_def list_all_length)

lemma nth_scale_grid:
  "has_shape rows cols a \<Longrightarrow> y < rows \<Longrightarrow> x < cols \<Longrightarrow>
   scale_grid k a ! y ! x = k * a ! y ! x"
  by (simp add: has_shape_def scale_grid_def list_all_length)

lemma nth_roll_axis0:
  "has_shape rows cols g \<Longrightarrow> y < rows \<Longrightarrow>
   roll_axis0 k g ! y = g ! wrap (int y - k) rows"
  by (simp add: has_shape_def roll_axis0_def nth_roll)

lemma nth_roll_axis1:
  "has_shape rows cols g \<Longrightarrow> y < rows \<Longrightarrow> x < cols \<Longrightarrow>
   roll_axis1 k g ! y ! x = g ! y ! wrap (int x - k) cols"
  by (simp add: has_shape_def roll_axis1_def nth_roll list_all_length)

lemma has_shape_lap: "has_shape rows cols c \<Longrightarrow> has_shape rows cols (lap c)"
  unfolding lap_def
  by (intro has_shape_sub_grid has_shape_add_grid has_shape_roll_axis0
      has_shape_roll_axis1 has_shape_scale_grid)

lemma nth_lap:
  assumes c: "has_shape rows cols c" and y: "y < rows" and x: "x < cols"
  shows "lap c ! y ! x = toroidal_laplacian c rows cols y x"
proof -
  note sh = has_shape_add_grid has_shape_roll_axis0 has_shape_roll_axis1
    has_shape_scale_grid
  have "lap c ! y ! x =
      roll_axis0 1 c ! y ! x + roll_axis0 (- 1) c ! y ! x
      + roll_axis1 1 c ! y ! x + roll_axis1 (- 1) c ! y ! x - 4 * c ! y ! x"
    unfolding lap_def
    using c y x
    by (simp add: nth_sub_grid [of rows cols] nth_add_grid [of rows cols]
        nth_scale_grid [of rows cols] sh)
  then show ?thesis
    using c y x
    by (simp add: toroidal_laplacian_def nth_roll_axis0 [of rows cols]
        nth_roll_axis1 [of rows cols])
qed

lemma has_shape_wave_new:
  "has_shape rows cols c \<Longrightarrow> has_shape rows cols p \<Longrightarrow> has_shape rows cols (wave_new c p)"
  unfolding wave_new_def
  by (intro has_shape_sub_grid has_shape_add_grid has_shape_scale_grid has_shape_lap)

lemma nth_wave_new:
  assumes c: "has_shape rows cols c" and p: "has_shape rows cols p"
    and y: "y < rows" and x: "x < cols"
  shows "wave_new c p ! y ! x =
     DAMPING * (2 * c ! y ! x - p ! y ! x + 0.5 * toroidal_laplacian c rows cols y x)"
proof -
  note sh = has_shape_add_grid has_shape_sub_grid has_shape_scale_grid has_shape_lap
  show ?thesis
    unfolding wave_new_def
    using c p y x
    by (simp add: nth_sub_grid [of rows cols] nth_add_grid [of rows cols]
        nth_scale_grid [of rows cols] nth_lap [of rows cols] sh)
qed

lemma grid_eqI:
  assumes "has_shape rows cols a" and "has_shape rows cols b"
    and "\<And>y x. y < rows \<Longrightarrow> x < cols \<Longrightarrow> a ! y ! x = b ! y ! x"
  shows "a = b"
proof (rule nth_equalityI)
  show "length a = length b"
    using assms(1,2) by (simp add: has_shape_def)
next
  fix y assume y: "y < length a"
  then have yr: "y < rows" using assms(1) by (simp add: has_shape_def)
  show "a ! y = b ! y"
  proof (rule nth_equalityI)
    show "length (a ! y) = length (b ! y)"
      using assms(1,2) yr by (simp add: has_shape_nth)
  next
    fix x assume "x < length (a ! y)"
    then have "x < cols" using assms(1) yr by (simp add: has_shape_nth)
    then show "a ! y ! x = b ! y ! x" using assms(3) yr by simp
  qed
qed

lemma nth_zeros: "y < rows \<Longrightarrow> x < cols \<Longrightarrow> zeros rows cols ! y ! x = 0"
  by (simp add: zeros_def)

lemma toroidal_laplacian_zeros:
  assumes "y < rows" and "x < cols"
  shows "toroidal_laplacian (zeros rows cols) rows cols y x = 0"
proof -
  have "wrap (int y - 1) rows < rows" "wrap (int y + 1) rows < rows"
    "wrap (int x - 1) cols < cols" "wrap (int x + 1) cols < cols"
    using assms by (simp_all add: wrap_less)
  then show ?thesis
    using assms by (simp add: toroidal_laplacian_def nth_zeros)
qed

lemma wave_new_zeros: "wave_new (zeros rows cols) (zeros rows cols) = zeros rows cols"
proof (rule grid_eqI [of rows cols])
  show "has_shape rows cols (wave_new (zeros rows cols) (zeros rows cols))"
    by (simp add: has_shape_wave_new has_shape_zeros)
  show "has_shape rows cols (zeros rows cols)"
    by (rule has_shape_zeros)
next
  fix y x assume "y < rows" "x < cols"
  then show "wave_new (zeros rows cols) (zeros rows cols) ! y ! x = zeros rows cols ! y ! x"
    by (simp add: nth_wave_new [of rows cols] has_shape_zeros nth_zeros
        toroidal_laplacian_zeros)
qed

section \<open>Properties of the wave field\<close>

lemma current_grid_step:
  "current_grid (step s) = wave_new (current_grid s) (previous_grid s)"
  by (simp add: step_def current_grid_def previous_grid_def Let_def)

lemma previous_grid_step:
  "current s < fresh s \<Longrightarrow> previous_grid (step s) = current_grid s"
  by (simp add: step_def current_grid_def previous_grid_def Let_def)

lemma current_fresh_step: "current (step s) < fresh (step s)"
  by (simp add: step_def Let_def)

lemma wf_Ripples: "Ripples W H = Inr s \<Longrightarrow> wf s"
  by (auto simp: Ripples_def wf_def has_shape_zeros split: if_splits)

lemma wf_step: "wf s \<Longrightarrow> wf (step s)"
  by (auto simp: wf_def step_def Let_def has_shape_wave_new)

lemma has_shape_add_at:
  "has_shape rows cols g \<Longrightarrow> add_at g y x m = Inr g' \<Longrightarrow> has_shape rows cols g'"
  by (auto simp: add_at_def has_shape_def list_all_length nth_list_update split: if_splits)

lemma wf_disturb: "wf s \<Longrightarrow> disturb x y m s = Inr s' \<Longrightarrow> wf s'"
  by (auto simp: wf_def disturb_def has_shape_add_at split: if_splits sum.splits)

text \<open>
  C1. For two height arrays of one shape, one call of \<open>step\<close> leaves in \<open>current\<close>, at
  every cell, \<open>DAMPING * (2 * current - previous + 0.5 * laplacian)\<close> with
  \<open>DAMPING = 0.995\<close> and the laplacian the sum of the four orthogonal neighbours of the
  old \<open>current\<close>, looked up with wraparound, minus four times the cell; and \<open>previous\<close>
  holds the old \<open>current\<close>. (\<open>current s < fresh s\<close>: the address the allocator hands
  out next is not yet in use.)
\<close>

theorem step_wave_update:
  assumes "has_shape rows cols (current_grid s)"
    and "has_shape rows cols (previous_grid s)"
    and "current s < fresh s"
  shows "DAMPING = 0.995 \<and>
    has_shape rows cols (current_grid (step s)) \<and>
    (\<forall>y<rows. \<forall>x<cols.
       current_grid (step s) ! y ! x =
         DAMPING * (2 * current_grid s ! y ! x - previous_grid s ! y ! x
                    + 0.5 * toroidal_laplacian (current_grid s) rows cols y x)) \<and>
    previous_grid (step s) = current_grid s"
  using assms
  by (simp add: current_grid_step previous_grid_step has_shape_wave_new
      nth_wave_new [of rows cols] DAMPING_def)

theorem step_wave_update_witness:
  "has_shape 2 3 (current_grid demo_field) \<and> has_shape 2 3 (previous_grid demo_field) \<and>
   current demo_field < fresh demo_field \<and>
   current_grid (step demo_field) ! 0 ! 0 = 6.4675 \<and>
   previous_grid (step demo_field) = [[1, 2, 3], [4, 5, 6]]"
proof -
  have a: "has_shape 2 3 (current_grid demo_field)"
    "has_shape 2 3 (previous_grid demo_field)" "current demo_field < fresh demo_field"
    by (simp_all add: demo_field_def has_shape_def current_grid_def previous_grid_def)
  from step_wave_update [OF a]
  have "current_grid (step demo_field) ! 0 ! 0 =
         DAMPING * (2 * current_grid demo_field ! 0 ! 0 - previous_grid demo_field ! 0 ! 0
                    + 0.5 * toroidal_laplacian (current_grid demo_field) 2 3 0 0)"
    and p: "previous_grid (step demo_field) = current_grid demo_field"
    by simp_all
  then show ?thesis using a
    by (simp add: demo_field_def current_grid_def previous_grid_def
        toroidal_laplacian_def wrap_def DAMPING_def)
qed

text \<open>
  C2. From a state whose two height arrays are all zero, any number \<open>n\<close> of consecutive
  calls of \<open>step\<close> (no \<open>disturb\<close> between them) leaves both arrays all zero.
\<close>

theorem rest_stays_zero:
  assumes "current_grid s = zeros rows cols" and "previous_grid s = zeros rows cols"
    and "current s < fresh s"
  shows "current_grid ((step ^^ n) s) = zeros rows cols \<and>
         previous_grid ((step ^^ n) s) = zeros rows cols"
proof -
  have "current_grid ((step ^^ n) s) = zeros rows cols \<and>
        previous_grid ((step ^^ n) s) = zeros rows cols \<and>
        current ((step ^^ n) s) < fresh ((step ^^ n) s)"
  proof (induction n)
    case 0
    then show ?case using assms by simp
  next
    case (Suc n)
    then show ?case
      by (simp add: current_grid_step previous_grid_step current_fresh_step wave_new_zeros)
  qed
  then show ?thesis by simp
qed

theorem rest_stays_zero_witness:
  "\<exists>s. Ripples 3 2 = Inr s \<and>
     current_grid s = zeros 2 3 \<and> previous_grid s = zeros 2 3 \<and> current s < fresh s \<and>
     current_grid ((step ^^ 5) s) = [[0, 0, 0], [0, 0, 0]] \<and>
     previous_grid ((step ^^ 5) s) = [[0, 0, 0], [0, 0, 0]]"
proof -
  obtain s where s: "Ripples 3 2 = Inr s" by (simp add: Ripples_def)
  have a: "current_grid s = zeros 2 3" "previous_grid s = zeros 2 3" "current s < fresh s"
    using s by (auto simp: Ripples_def current_grid_def previous_grid_def)
  have z: "zeros 2 3 = [[0, 0, 0], [0, 0, 0]]"
    by (simp add: zeros_def numeral_2_eq_2 numeral_3_eq_3)
  show ?thesis
    using s a rest_stays_zero [OF a, of 5] by (simp add: z)
qed

lemma disturb_out_of_bounds:
  "\<not> (0 \<le> x \<and> x < w s \<and> 0 \<le> y \<and> y < h s) \<Longrightarrow> disturb x y m s = Inr s"
  unfolding disturb_def by (simp only: if_False)

lemma disturb_in_bounds:
  assumes "wf s" and "0 \<le> x" "x < w s" "0 \<le> y" "y < h s"
  shows "disturb x y m s =
     Inr (s \<lparr> store := (store s)(current s :=
        (current_grid s)[nat y :=
           (current_grid s ! nat y)[nat x := current_grid s ! nat y ! nat x + m]]) \<rparr>)"
proof -
  have sh: "has_shape (nat (h s)) (nat (w s)) (store s (current s))"
    using assms(1) by (simp add: wf_def)
  have "nat y < length (store s (current s))"
    using sh assms by (simp add: has_shape_def)
  moreover have "nat x < length (store s (current s) ! nat y)"
    using sh assms by (simp add: has_shape_nth [of "nat (h s)" "nat (w s)"])
  ultimately show ?thesis
    using assms by (simp add: disturb_def add_at_def current_grid_def)
qed

text \<open>
  C4. In a state of the class, for all integers \<open>x\<close>, \<open>y\<close> and every magnitude \<open>m\<close>:
  if \<open>0 \<le> x < w\<close> and \<open>0 \<le> y < h\<close> then \<open>disturb x y m\<close> returns normally, adds \<open>m\<close> to
  \<open>current[y][x]\<close>, and leaves every other cell of \<open>current\<close> and all of \<open>previous\<close> as
  they were; otherwise it returns normally with the state unchanged.
\<close>

theorem disturb_contract:
  assumes "wf s"
  shows "(0 \<le> x \<and> x < w s \<and> 0 \<le> y \<and> y < h s \<longrightarrow>
           (\<exists>s'. disturb x y m s = Inr s' \<and>
              current_grid s' ! nat y ! nat x = current_grid s ! nat y ! nat x + m \<and>
              (\<forall>y' x'. y' < nat (h s) \<and> x' < nat (w s) \<and> (y', x') \<noteq> (nat y, nat x) \<longrightarrow>
                 current_grid s' ! y' ! x' = current_grid s ! y' ! x') \<and>
              has_shape (nat (h s)) (nat (w s)) (current_grid s') \<and>
              previous_grid s' = previous_grid s)) \<and>
         (\<not> (0 \<le> x \<and> x < w s \<and> 0 \<le> y \<and> y < h s) \<longrightarrow> disturb x y m s = Inr s)"
proof (intro conjI impI)
  assume b: "0 \<le> x \<and> x < w s \<and> 0 \<le> y \<and> y < h s"
  let ?g = "current_grid s"
  let ?s' = "s \<lparr> store := (store s)(current s :=
        ?g[nat y := (?g ! nat y)[nat x := ?g ! nat y ! nat x + m]]) \<rparr>"
  have d: "disturb x y m s = Inr ?s'"
    using disturb_in_bounds [OF assms] b by simp
  have sh: "has_shape (nat (h s)) (nat (w s)) ?g"
    using assms by (simp add: wf_def current_grid_def)
  have ly: "nat y < length ?g" using sh b by (simp add: has_shape_def)
  have lx: "nat x < length (?g ! nat y)"
    using sh b by (simp add: has_shape_nth [of "nat (h s)" "nat (w s)"])
  have ne: "current s \<noteq> previous s" using assms by (simp add: wf_def)
  have c: "current_grid ?s' = ?g[nat y := (?g ! nat y)[nat x := ?g ! nat y ! nat x + m]]"
    by (simp add: current_grid_def)
  have 1: "current_grid ?s' ! nat y ! nat x = ?g ! nat y ! nat x + m"
    using ly lx by (simp add: c)
  have 2: "\<forall>y' x'. y' < nat (h s) \<and> x' < nat (w s) \<and> (y', x') \<noteq> (nat y, nat x) \<longrightarrow>
                 current_grid ?s' ! y' ! x' = ?g ! y' ! x'"
    using ly lx by (auto simp: c nth_list_update)
  have 3: "has_shape (nat (h s)) (nat (w s)) (current_grid ?s')"
    using sh ly lx by (auto simp: c has_shape_def list_all_length nth_list_update)
  have 4: "previous_grid ?s' = previous_grid s"
    using ne by (simp add: previous_grid_def)
  show "\<exists>s'. disturb x y m s = Inr s' \<and>
              current_grid s' ! nat y ! nat x = current_grid s ! nat y ! nat x + m \<and>
              (\<forall>y' x'. y' < nat (h s) \<and> x' < nat (w s) \<and> (y', x') \<noteq> (nat y, nat x) \<longrightarrow>
                 current_grid s' ! y' ! x' = current_grid s ! y' ! x') \<and>
              has_shape (nat (h s)) (nat (w s)) (current_grid s') \<and>
              previous_grid s' = previous_grid s"
    using d 1 2 3 4 by blast
next
  assume "\<not> (0 \<le> x \<and> x < w s \<and> 0 \<le> y \<and> y < h s)"
  then show "disturb x y m s = Inr s" by (rule disturb_out_of_bounds)
qed

theorem disturb_contract_witness:
  "wf demo_field \<and>
   (\<exists>s'. disturb 2 1 7 demo_field = Inr s' \<and>
      current_grid s' ! 1 ! 2 = 13 \<and> current_grid s' ! 1 ! 1 = 5 \<and>
      current_grid s' ! 0 ! 2 = 3 \<and> previous_grid s' = [[0, 0, 0], [1, 1, 1]]) \<and>
   disturb 3 1 7 demo_field = Inr demo_field \<and>
   disturb (- 1) 0 7 demo_field = Inr demo_field \<and>
   disturb 0 2 7 demo_field = Inr demo_field"
proof -
  have a: "wf demo_field" by (simp add: wf_def demo_field_def has_shape_def)
  have o1: "disturb 3 1 7 demo_field = Inr demo_field"
    using disturb_contract [OF a, of 3 1 7] by (simp add: demo_field_def)
  have o2: "disturb (- 1) 0 7 demo_field = Inr demo_field"
    using disturb_contract [OF a, of "- 1" 0 7] by (simp add: demo_field_def)
  have o3: "disturb 0 2 7 demo_field = Inr demo_field"
    using disturb_contract [OF a, of 0 2 7] by (simp add: demo_field_def)
  have b: "0 \<le> (2::int) \<and> 2 < w demo_field \<and> 0 \<le> (1::int) \<and> 1 < h demo_field"
    by (simp add: demo_field_def)
  from disturb_contract [OF a, of 2 1 7] b
  obtain s' where d: "disturb 2 1 7 demo_field = Inr s'"
    and c: "current_grid s' ! nat 1 ! nat 2 = current_grid demo_field ! nat 1 ! nat 2 + 7"
    and f: "\<forall>y' x'. y' < nat (h demo_field) \<and> x' < nat (w demo_field) \<and>
               (y', x') \<noteq> (nat 1, nat 2) \<longrightarrow>
               current_grid s' ! y' ! x' = current_grid demo_field ! y' ! x'"
    and p: "previous_grid s' = previous_grid demo_field"
    by blast
  have c1: "current_grid s' ! 1 ! 2 = 13"
    using c by (simp add: demo_field_def current_grid_def)
  have c2: "current_grid s' ! 1 ! 1 = 5"
    using f [rule_format, of 1 1] by (simp add: demo_field_def current_grid_def)
  have c3: "current_grid s' ! 0 ! 2 = 3"
    using f [rule_format, of 0 2] by (simp add: demo_field_def current_grid_def)
  have c4: "previous_grid s' = [[0, 0, 0], [1, 1, 1]]"
    using p by (simp add: demo_field_def previous_grid_def)
  show ?thesis using a o1 o2 o3 d c1 c2 c3 c4 by blast
qed

text \<open>In a state of the class \<open>disturb\<close> never raises, whatever its arguments.\<close>

lemma disturb_returns: "wf s \<Longrightarrow> \<exists>s'. disturb x y m s = Inr s' \<and> wf s'"
proof (cases "0 \<le> x \<and> x < w s \<and> 0 \<le> y \<and> y < h s")
  case True
  assume s: "wf s"
  then obtain s' where "disturb x y m s = Inr s'"
    using True disturb_in_bounds [of s x y m] by simp
  then show ?thesis using s wf_disturb by blast
next
  case False
  assume "wf s"
  then show ?thesis using False disturb_out_of_bounds [of x s y m] by simp
qed

lemma disturb_all_returns: "wf s \<Longrightarrow> \<exists>s'. disturb_all cs s = Inr s' \<and> wf s'"
proof (induction cs arbitrary: s)
  case Nil
  then show ?case by simp
next
  case (Cons c cs)
  obtain x y m where c: "c = (x, y, m)" by (cases c) auto
  obtain s1 where d: "disturb x y m s = Inr s1" and w: "wf s1"
    using disturb_returns [OF Cons.prems] by blast
  show ?case using Cons.IH [OF w] d by (simp add: c)
qed

section \<open>Properties of the event handlers and the clock\<close>

lemma drag_magnitude_le: "drag_magnitude dx dy \<le> 50"
  by (simp add: drag_magnitude_def Let_def min_def)

text \<open>
  C8. A pointer-drag motion sample that arrives with a recorded previous sample at
  displacement \<open>(dx, dy)\<close> calls \<open>disturb\<close> at the pointer with magnitude
  \<open>min(100, sqrt(dx^2 + dy^2)) * 0.5\<close>, which is at most 50 whatever the displacement.
\<close>

theorem drag_capped:
  assumes "pressed inp" and "mouse_pos inp = (mx, my)" and "last_mouse a = Some (lx, ly)"
  shows "\<exists>m. handle_event MOUSEMOTION inp a =
            (case disturb mx my m (ripples a) of
               Inl e \<Rightarrow> Inl e
             | Inr r \<Rightarrow> Inr (a \<lparr> ripples := r, last_mouse := Some (mx, my) \<rparr>)) \<and>
          m = min 100 (sqrt ((real_of_int (mx - lx))\<^sup>2 + (real_of_int (my - ly))\<^sup>2)) * 0.5 \<and>
          m \<le> 50"
proof -
  let ?m = "drag_magnitude (mx - lx) (my - ly)"
  have "handle_event MOUSEMOTION inp a =
            (case disturb mx my ?m (ripples a) of
               Inl e \<Rightarrow> Inl e
             | Inr r \<Rightarrow> Inr (a \<lparr> ripples := r, last_mouse := Some (mx, my) \<rparr>))"
    using assms by (simp add: handle_event_def Let_def)
  moreover have "?m = min 100 (sqrt ((real_of_int (mx - lx))\<^sup>2 + (real_of_int (my - ly))\<^sup>2)) * 0.5"
    by (simp add: drag_magnitude_def hypot_def Let_def power2_eq_square)
  moreover have "?m \<le> 50" by (rule drag_magnitude_le)
  ultimately show ?thesis by blast
qed

lemma sqrt25: "sqrt 25 = 5"
  using real_sqrt_abs [of 5] by simp

lemma sqrt250000: "sqrt 250000 = 500"
  using real_sqrt_abs [of 500] by simp

theorem drag_capped_witness:
  "pressed \<lparr> mouse_pos = (2, 1), pressed = True, draws = (\<lambda>_. 0) \<rparr> \<and>
   last_mouse demo_app = Some (- 1, - 3) \<and>
   (\<exists>a'. handle_event MOUSEMOTION \<lparr> mouse_pos = (2, 1), pressed = True, draws = (\<lambda>_. 0) \<rparr> demo_app = Inr a' \<and>
      current_grid (ripples a') ! 1 ! 2 = 6 + 2.5 \<and> last_mouse a' = Some (2, 1)) \<and>
   (\<exists>a'. handle_event MOUSEMOTION \<lparr> mouse_pos = (2, 1), pressed = True, draws = (\<lambda>_. 0) \<rparr>
             (demo_app \<lparr> last_mouse := Some (- 298, - 399) \<rparr>) = Inr a' \<and>
      current_grid (ripples a') ! 1 ! 2 = 6 + 50)"
proof -
  let ?inp = "\<lparr> mouse_pos = (2, 1), pressed = True, draws = (\<lambda>_. 0) \<rparr>"
  have p: "pressed ?inp" and q: "mouse_pos ?inp = (2, 1)" by simp_all
  have l: "last_mouse demo_app = Some (- 1, - 3)" by (simp add: demo_app_def)
  have l2: "last_mouse (demo_app \<lparr> last_mouse := Some (- 298, - 399) \<rparr>) = Some (- 298, - 399)"
    by simp
  from drag_capped [OF p q l]
  have 1: "\<exists>a'. handle_event MOUSEMOTION ?inp demo_app = Inr a' \<and>
      current_grid (ripples a') ! 1 ! 2 = 6 + 2.5 \<and> last_mouse a' = Some (2, 1)"
    by (auto simp: sqrt25 demo_app_def demo_field_def disturb_def add_at_def current_grid_def)
  from drag_capped [OF p q l2]
  have 2: "\<exists>a'. handle_event MOUSEMOTION ?inp (demo_app \<lparr> last_mouse := Some (- 298, - 399) \<rparr>) = Inr a' \<and>
      current_grid (ripples a') ! 1 ! 2 = 6 + 50"
    by (auto simp: sqrt250000 demo_app_def demo_field_def disturb_def add_at_def current_grid_def)
  show ?thesis using p l 1 2 by blast
qed

text \<open>
  C10. A pointer-drag motion sample that arrives while the button is held and no previous
  sample is recorded injects no disturbance: the handler returns the state with only
  \<open>last_mouse\<close> changed, to the position of that sample.
\<close>

theorem first_motion_records_only:
  assumes "pressed inp" and "last_mouse a = None"
  shows "handle_event MOUSEMOTION inp a = Inr (a \<lparr> last_mouse := Some (mouse_pos inp) \<rparr>)"
  using assms by (simp add: handle_event_def split: prod.splits)

theorem first_motion_records_only_witness:
  "pressed \<lparr> mouse_pos = (2, 1), pressed = True, draws = (\<lambda>_. 0) \<rparr> \<and>
   last_mouse (demo_app \<lparr> last_mouse := None \<rparr>) = None \<and>
   handle_event MOUSEMOTION \<lparr> mouse_pos = (2, 1), pressed = True, draws = (\<lambda>_. 0) \<rparr>
      (demo_app \<lparr> last_mouse := None \<rparr>) = Inr (demo_app \<lparr> last_mouse := Some (2, 1) \<rparr>)"
  using first_motion_records_only
     [of "\<lparr> mouse_pos = (2, 1), pressed = True, draws = (\<lambda>_. 0) \<rparr>" "demo_app \<lparr> last_mouse := None \<rparr>"]
  by simp

text \<open>
  C9. Advancing the clock adds exactly 0.005 to the phase and changes nothing else; for
  every phase \<open>p\<close> the blend factor \<open>(sin p + 1) / 2\<close> lies in \<open>[0, 1]\<close> and has period
  \<open>2 * pi\<close>.
\<close>

theorem day_night_clock:
  "advance_day a = a \<lparr> day_time := day_time a + 0.005 \<rparr> \<and>
   day_time (advance_day a) = day_time a + 0.005 \<and>
   blend_factor p = (sin p + 1) / 2 \<and>
   0 \<le> blend_factor p \<and> blend_factor p \<le> 1 \<and>
   blend_factor (p + 2 * pi) = blend_factor p"
proof -
  have lo: "0 \<le> sin p + 1"
    using sin_ge_minus_one [of p] by linarith
  have hi: "sin p + 1 \<le> 2"
    using sin_le_one [of p] by linarith
  have "0 \<le> blend_factor p \<and> blend_factor p \<le> 1"
    using lo hi by (simp add: blend_factor_def)
  then show ?thesis
    by (simp add: advance_day_def blend_factor_def)
qed

section \<open>Properties of the audio-driven disturbances\<close>

lemma randint_range: "a \<le> b \<Longrightarrow> a \<le> randint a b e \<and> randint a b e \<le> b"
proof -
  assume ab: "a \<le> b"
  then have pos: "0 < nat (b - a + 1)" by simp
  have "e mod nat (b - a + 1) < nat (b - a + 1)"
    using pos by (rule mod_less_divisor)
  then have "int (e mod nat (b - a + 1)) < b - a + 1"
    using ab by linarith
  then show ?thesis by (simp add: randint_def)
qed

lemma py_int_floor: "0 \<le> v \<Longrightarrow> py_int v = \<lfloor>v\<rfloor>"
  by (simp add: py_int_def)

lemma floor_min10: "\<lfloor>min 10 (v::real)\<rfloor> = min 10 \<lfloor>v\<rfloor>"
  by (simp add: min_def le_floor_iff)

text \<open>The audio block of a tick never raises in a state of the class.\<close>

lemma audio_burst_returns:
  "wf (ripples a) \<Longrightarrow> \<exists>a'. audio_burst L ent a = Inr a' \<and> wf (ripples a')"
proof -
  assume "wf (ripples a)"
  then obtain r where "disturb_all (audio_calls (audio_enabled a) L (intensity a) ent) (ripples a) = Inr r"
    and "wf r"
    using disturb_all_returns by blast
  then show ?thesis by (simp add: audio_burst_def)
qed

text \<open>The effect of \<open>disturb\<close>, and of a list of calls, on the cells of the field.\<close>

lemma disturb_effect:
  assumes "wf s"
  shows "\<exists>s'. disturb x y m s = Inr s' \<and> wf s' \<and> w s' = w s \<and> h s' = h s \<and>
           previous_grid s' = previous_grid s \<and>
           (\<forall>i<nat (h s). \<forall>j<nat (w s).
              current_grid s' ! i ! j =
                current_grid s ! i ! j + (if x = int j \<and> y = int i then m else 0))"
proof (cases "0 \<le> x \<and> x < w s \<and> 0 \<le> y \<and> y < h s")
  case True
  let ?g = "current_grid s"
  let ?s' = "s \<lparr> store := (store s)(current s :=
        ?g[nat y := (?g ! nat y)[nat x := ?g ! nat y ! nat x + m]]) \<rparr>"
  have d: "disturb x y m s = Inr ?s'"
    using disturb_in_bounds [OF assms] True by simp
  have w': "wf ?s'" using assms d by (rule wf_disturb)
  have sh: "has_shape (nat (h s)) (nat (w s)) ?g"
    using assms by (simp add: wf_def current_grid_def)
  have ly: "nat y < length ?g" using sh True by (simp add: has_shape_def)
  have lx: "nat x < length (?g ! nat y)"
    using sh True by (simp add: has_shape_nth [of "nat (h s)" "nat (w s)"])
  have ne: "current s \<noteq> previous s" using assms by (simp add: wf_def)
  have c: "current_grid ?s' = ?g[nat y := (?g ! nat y)[nat x := ?g ! nat y ! nat x + m]]"
    by (simp add: current_grid_def)
  have p: "previous_grid ?s' = previous_grid s"
    using ne by (simp add: previous_grid_def)
  have cells: "\<forall>i<nat (h s). \<forall>j<nat (w s).
      current_grid ?s' ! i ! j = ?g ! i ! j + (if x = int j \<and> y = int i then m else 0)"
  proof (intro allI impI)
    fix i j assume i: "i < nat (h s)" and j: "j < nat (w s)"
    have e: "(x = int j \<and> y = int i) \<longleftrightarrow> (i = nat y \<and> j = nat x)"
      using True by auto
    show "current_grid ?s' ! i ! j = ?g ! i ! j + (if x = int j \<and> y = int i then m else 0)"
      unfolding e c using ly lx by (auto simp: nth_list_update)
  qed
  show ?thesis using d w' p cells by auto
next
  case False
  have d: "disturb x y m s = Inr s" using False by (rule disturb_out_of_bounds)
  have "\<forall>i<nat (h s). \<forall>j<nat (w s).
      current_grid s ! i ! j = current_grid s ! i ! j + (if x = int j \<and> y = int i then m else 0)"
    using False by auto
  then show ?thesis using d assms by auto
qed

lemma disturb_all_effect:
  assumes "wf s"
  shows "\<exists>s'. disturb_all cs s = Inr s' \<and> wf s' \<and> w s' = w s \<and> h s' = h s \<and>
           previous_grid s' = previous_grid s \<and>
           (\<forall>i<nat (h s). \<forall>j<nat (w s).
              current_grid s' ! i ! j =
                current_grid s ! i ! j
                + (\<Sum>c\<leftarrow>cs. if fst c = int j \<and> fst (snd c) = int i then snd (snd c) else 0))"
  using assms
proof (induction cs arbitrary: s)
  case Nil
  then show ?case by simp
next
  case (Cons c cs)
  obtain x y m where c: "c = (x, y, m)" by (cases c) auto
  obtain s1 where d: "disturb x y m s = Inr s1" and w1: "wf s1"
    and dim: "w s1 = w s" "h s1 = h s" and p1: "previous_grid s1 = previous_grid s"
    and c1: "\<forall>i<nat (h s). \<forall>j<nat (w s).
              current_grid s1 ! i ! j =
                current_grid s ! i ! j + (if x = int j \<and> y = int i then m else 0)"
    using disturb_effect [OF Cons.prems, of x y m] by blast
  obtain s2 where d2: "disturb_all cs s1 = Inr s2" and w2: "wf s2"
    and dim2: "w s2 = w s1" "h s2 = h s1" and p2: "previous_grid s2 = previous_grid s1"
    and c2: "\<forall>i<nat (h s1). \<forall>j<nat (w s1).
              current_grid s2 ! i ! j =
                current_grid s1 ! i ! j
                + (\<Sum>c\<leftarrow>cs. if fst c = int j \<and> fst (snd c) = int i then snd (snd c) else 0)"
    using Cons.IH [OF w1] by blast
  have "disturb_all (c # cs) s = Inr s2" using d d2 by (simp add: c)
  moreover have "\<forall>i<nat (h s). \<forall>j<nat (w s).
              current_grid s2 ! i ! j =
                current_grid s ! i ! j
                + (\<Sum>c\<leftarrow>c # cs. if fst c = int j \<and> fst (snd c) = int i then snd (snd c) else 0)"
    using c1 c2 dim by (simp add: c)
  ultimately show ?case using w2 dim dim2 p1 p2 by auto
qed

lemma sum_list_hits:
  assumes "\<forall>c \<in> set cs. snd (snd c) = m"
  shows "(\<Sum>c\<leftarrow>cs. if fst c = int x \<and> fst (snd c) = int y then snd (snd c) else 0) =
         m * real (hits x y cs)"
  using assms by (induction cs) (auto simp: hits_def algebra_simps)

lemma randint_raw: "e < nat (b - a + 1) \<Longrightarrow> randint a b e = a + int e"
  by (simp add: randint_def)

lemma hits_Cons:
  "hits x y (c # cs) = (if fst c = int x \<and> fst (snd c) = int y then 1 else 0) + hits x y cs"
  by (simp add: hits_def)

lemma sum_indicator_int:
  assumes "0 \<le> v" and "v < int n"
  shows "(\<Sum>x<n. if v = int x then 1 else 0) = (1::nat)"
proof -
  have "(\<Sum>x<n. if v = int x then 1 else 0) = (\<Sum>x<n. if x = nat v then 1 else (0::nat))"
    using assms by (intro sum.cong refl) auto
  also have "\<dots> = 1" using assms by simp
  finally show ?thesis .
qed

lemma hits_total:
  assumes "\<forall>c \<in> set cs. 0 \<le> fst c \<and> fst c < int cols \<and> 0 \<le> fst (snd c) \<and> fst (snd c) < int rows"
  shows "(\<Sum>y<rows. \<Sum>x<cols. hits x y cs) = length cs"
  using assms
proof (induction cs)
  case Nil
  then show ?case by (simp add: hits_def)
next
  case (Cons c cs)
  have b: "0 \<le> fst c" "fst c < int cols" "0 \<le> fst (snd c)" "fst (snd c) < int rows"
    using Cons.prems by simp_all
  have one: "(\<Sum>y<rows. \<Sum>x<cols. if fst c = int x \<and> fst (snd c) = int y then 1 else 0) = (1::nat)"
  proof -
    have "(\<Sum>y<rows. \<Sum>x<cols. if fst c = int x \<and> fst (snd c) = int y then 1 else 0) =
          (\<Sum>y<rows. if fst (snd c) = int y
                      then (\<Sum>x<cols. if fst c = int x then 1 else 0) else (0::nat))"
      by (intro sum.cong refl) simp
    also have "\<dots> = (\<Sum>y<rows. if fst (snd c) = int y then 1 else (0::nat))"
      unfolding sum_indicator_int [OF b(1,2)] ..
    also have "\<dots> = 1" using b(3,4) by (rule sum_indicator_int)
    finally show ?thesis .
  qed
  have "(\<Sum>y<rows. \<Sum>x<cols. hits x y (c # cs)) =
        (\<Sum>y<rows. \<Sum>x<cols. if fst c = int x \<and> fst (snd c) = int y then 1 else 0)
        + (\<Sum>y<rows. \<Sum>x<cols. hits x y cs)"
    by (simp add: hits_Cons sum.distrib)
  then show ?case using one Cons by simp
qed

lemma randint_unique:
  assumes "0 \<le> v" and "v < n"
  shows "\<exists>!e. e < nat n \<and> randint 0 (n - 1) e = v"
proof
  show "nat v < nat n \<and> randint 0 (n - 1) (nat v) = v"
    using assms by (simp add: randint_def)
next
  fix e assume "e < nat n \<and> randint 0 (n - 1) e = v"
  then show "e = nat v" by (auto simp: randint_def)
qed

lemma audio_calls_on:
  assumes "enabled" and "L > 0.01"
  shows "audio_calls enabled L s ent =
           map (\<lambda>i. (randint 0 (WIDTH - 1) (ent (2 * i)),
                      randint 0 (HEIGHT - 1) (ent (2 * i + 1)), L * 200 * s))
               [0..<nat (min 10 \<lfloor>L * 200\<rfloor>)]"
proof -
  have "0 \<le> min 10 (L * 200)" using assms by simp
  then have "py_int (min 10 (L * 200)) = min 10 \<lfloor>L * 200\<rfloor>"
    by (simp add: py_int_floor floor_min10)
  then show ?thesis using assms by (simp add: audio_calls_def)
qed

lemma audio_calls_off: "L \<le> 0 \<or> \<not> enabled \<Longrightarrow> audio_calls enabled L s ent = []"
  by (auto simp: audio_calls_def)

text \<open>
  C7. In one tick with loudness \<open>L\<close>, on the field of the window, with intensity \<open>s\<close>
  and the audio flag of the loop state: if the flag is set and \<open>L > 0.01\<close>, the audio block
  returns normally after exactly \<open>min(10, floor(L * 200))\<close> calls of \<open>disturb\<close>, the
  \<open>i\<close>-th at the position \<open>(randint(0, WIDTH - 1), randint(0, HEIGHT - 1))\<close> drawn for it,
  which lies inside the grid, each with magnitude \<open>L * 200 * s\<close> (not capped). Their
  effect on the field: every cell of \<open>current\<close> grows by \<open>L * 200 * s\<close> times the number
  of calls aimed at it, these numbers add up to the number of calls, and \<open>previous\<close> and
  every other variable of the loop keep their values. If \<open>L \<le> 0\<close> or the flag is unset
  the state is unchanged. The positions are uniform in this sense: every grid position
  is the result of exactly one pair of raw generator outputs below \<open>WIDTH\<close> and
  \<open>HEIGHT\<close>, so equally likely raw outputs give equally likely positions.
\<close>

theorem audio_burst_contract:
  assumes "wf (ripples a)" and "w (ripples a) = WIDTH" and "h (ripples a) = HEIGHT"
  shows
    "(audio_enabled a \<and> L > 0.01 \<longrightarrow>
       (\<exists>a' cs.
          audio_burst L ent a = Inr a' \<and>
          cs = map (\<lambda>i. (randint 0 (WIDTH - 1) (ent (2 * i)),
                          randint 0 (HEIGHT - 1) (ent (2 * i + 1)), L * 200 * intensity a))
                   [0..<nat (min 10 \<lfloor>L * 200\<rfloor>)] \<and>
          int (length cs) = min 10 \<lfloor>L * 200\<rfloor> \<and>
          (\<forall>c \<in> set cs. 0 \<le> fst c \<and> fst c < WIDTH \<and> 0 \<le> fst (snd c) \<and> fst (snd c) < HEIGHT \<and>
                         snd (snd c) = L * 200 * intensity a) \<and>
          a' = a \<lparr> ripples := ripples a' \<rparr> \<and>
          previous_grid (ripples a') = previous_grid (ripples a) \<and>
          (\<forall>y<nat HEIGHT. \<forall>x<nat WIDTH.
             current_grid (ripples a') ! y ! x =
               current_grid (ripples a) ! y ! x + L * 200 * intensity a * real (hits x y cs)) \<and>
          (\<Sum>y<nat HEIGHT. \<Sum>x<nat WIDTH. hits x y cs) = length cs)) \<and>
     (L \<le> 0 \<or> \<not> audio_enabled a \<longrightarrow> audio_burst L ent a = Inr a) \<and>
     (\<forall>x y. 0 \<le> x \<and> x < WIDTH \<and> 0 \<le> y \<and> y < HEIGHT \<longrightarrow>
        (\<exists>!e. e < nat WIDTH \<and> randint 0 (WIDTH - 1) e = x) \<and>
        (\<exists>!e. e < nat HEIGHT \<and> randint 0 (HEIGHT - 1) e = y))"
proof (intro conjI impI allI)
  assume on: "audio_enabled a \<and> L > 0.01"
  let ?m = "L * 200 * intensity a"
  let ?cs = "map (\<lambda>i. (randint 0 (WIDTH - 1) (ent (2 * i)),
                          randint 0 (HEIGHT - 1) (ent (2 * i + 1)), ?m))
                   [0..<nat (min 10 \<lfloor>L * 200\<rfloor>)]"
  have calls: "audio_calls (audio_enabled a) L (intensity a) ent = ?cs"
    using on by (intro audio_calls_on) simp_all
  have n: "int (length ?cs) = min 10 \<lfloor>L * 200\<rfloor>"
    using on by (simp add: le_floor_iff)
  have each: "\<forall>c \<in> set ?cs. 0 \<le> fst c \<and> fst c < WIDTH \<and> 0 \<le> fst (snd c) \<and>
                 fst (snd c) < HEIGHT \<and> snd (snd c) = ?m"
  proof
    fix c assume "c \<in> set ?cs"
    then obtain i where c: "c = (randint 0 (WIDTH - 1) (ent (2 * i)),
                     randint 0 (HEIGHT - 1) (ent (2 * i + 1)), ?m)"
      by auto
    have "0 \<le> randint 0 (WIDTH - 1) (ent (2 * i)) \<and>
          randint 0 (WIDTH - 1) (ent (2 * i)) \<le> WIDTH - 1"
      by (rule randint_range) (simp add: WIDTH_def)
    moreover have "0 \<le> randint 0 (HEIGHT - 1) (ent (2 * i + 1)) \<and>
         randint 0 (HEIGHT - 1) (ent (2 * i + 1)) \<le> HEIGHT - 1"
      by (rule randint_range) (simp add: HEIGHT_def)
    ultimately show "0 \<le> fst c \<and> fst c < WIDTH \<and> 0 \<le> fst (snd c) \<and> fst (snd c) < HEIGHT \<and>
         snd (snd c) = ?m"
      by (simp add: c)
  qed
  obtain r where d: "disturb_all ?cs (ripples a) = Inr r"
    and p: "previous_grid r = previous_grid (ripples a)"
    and cells: "\<forall>i<nat (h (ripples a)). \<forall>j<nat (w (ripples a)).
              current_grid r ! i ! j =
                current_grid (ripples a) ! i ! j
                + (\<Sum>c\<leftarrow>?cs. if fst c = int j \<and> fst (snd c) = int i then snd (snd c) else 0)"
    using disturb_all_effect [OF assms(1), of ?cs] by blast
  have mag: "\<forall>c \<in> set ?cs. snd (snd c) = ?m" using each by blast
  have cells': "\<forall>y<nat HEIGHT. \<forall>x<nat WIDTH.
             current_grid r ! y ! x =
               current_grid (ripples a) ! y ! x + ?m * real (hits x y ?cs)"
    using cells sum_list_hits [OF mag] assms(2,3) by simp
  have inb: "\<forall>c \<in> set ?cs. 0 \<le> fst c \<and> fst c < int (nat WIDTH) \<and> 0 \<le> fst (snd c) \<and>
                 fst (snd c) < int (nat HEIGHT)"
    using each by (simp add: WIDTH_def HEIGHT_def)
  have tot: "(\<Sum>y<nat HEIGHT. \<Sum>x<nat WIDTH. hits x y ?cs) = length ?cs"
    using inb by (rule hits_total)
  have b: "audio_burst L ent a = Inr (a \<lparr> ripples := r \<rparr>)"
    using d calls by (simp add: audio_burst_def)
  show "\<exists>a' cs.
          audio_burst L ent a = Inr a' \<and>
          cs = ?cs \<and>
          int (length cs) = min 10 \<lfloor>L * 200\<rfloor> \<and>
          (\<forall>c \<in> set cs. 0 \<le> fst c \<and> fst c < WIDTH \<and> 0 \<le> fst (snd c) \<and> fst (snd c) < HEIGHT \<and>
                         snd (snd c) = ?m) \<and>
          a' = a \<lparr> ripples := ripples a' \<rparr> \<and>
          previous_grid (ripples a') = previous_grid (ripples a) \<and>
          (\<forall>y<nat HEIGHT. \<forall>x<nat WIDTH.
             current_grid (ripples a') ! y ! x =
               current_grid (ripples a) ! y ! x + ?m * real (hits x y cs)) \<and>
          (\<Sum>y<nat HEIGHT. \<Sum>x<nat WIDTH. hits x y cs) = length cs"
  proof (intro exI conjI)
    show "audio_burst L ent a = Inr (a \<lparr> ripples := r \<rparr>)" by (rule b)
    show "?cs = ?cs" by (rule refl)
    show "int (length ?cs) = min 10 \<lfloor>L * 200\<rfloor>" by (rule n)
    show "\<forall>c \<in> set ?cs. 0 \<le> fst c \<and> fst c < WIDTH \<and> 0 \<le> fst (snd c) \<and>
                 fst (snd c) < HEIGHT \<and> snd (snd c) = ?m" by (rule each)
    show "a \<lparr> ripples := r \<rparr> = a \<lparr> ripples := ripples (a \<lparr> ripples := r \<rparr>) \<rparr>"
      by simp
    show "previous_grid (ripples (a \<lparr> ripples := r \<rparr>)) = previous_grid (ripples a)"
      using p by simp
    show "\<forall>y<nat HEIGHT. \<forall>x<nat WIDTH.
             current_grid (ripples (a \<lparr> ripples := r \<rparr>)) ! y ! x =
               current_grid (ripples a) ! y ! x + ?m * real (hits x y ?cs)"
      using cells' by simp
    show "(\<Sum>y<nat HEIGHT. \<Sum>x<nat WIDTH. hits x y ?cs) = length ?cs" by (rule tot)
  qed
next
  assume "L \<le> 0 \<or> \<not> audio_enabled a"
  then have "audio_calls (audio_enabled a) L (intensity a) ent = []"
    by (rule audio_calls_off)
  then show "audio_burst L ent a = Inr a" by (simp add: audio_burst_def)
next
  fix x y :: int assume "0 \<le> x \<and> x < WIDTH \<and> 0 \<le> y \<and> y < HEIGHT"
  then show "\<exists>!e. e < nat WIDTH \<and> randint 0 (WIDTH - 1) e = x"
    by (intro randint_unique) simp_all
next
  fix x y :: int assume "0 \<le> x \<and> x < WIDTH \<and> 0 \<le> y \<and> y < HEIGHT"
  then show "\<exists>!e. e < nat HEIGHT \<and> randint 0 (HEIGHT - 1) e = y"
    by (intro randint_unique) simp_all
qed

theorem audio_burst_contract_witness:
  "wf (ripples still_app) \<and> w (ripples still_app) = WIDTH \<and> h (ripples still_app) = HEIGHT \<and>
   (\<exists>a'. audio_burst 0.03 (\<lambda>_. 5) still_app = Inr a' \<and>
      current_grid (ripples a') ! 5 ! 5 = 36 \<and>
      current_grid (ripples a') ! 5 ! 6 = 0 \<and>
      previous_grid (ripples a') = zeros 600 800) \<and>
   audio_burst 0 (\<lambda>_. 5) still_app = Inr still_app \<and>
   audio_burst 1 (\<lambda>_. 5) (still_app \<lparr> audio_enabled := False \<rparr>) =
     Inr (still_app \<lparr> audio_enabled := False \<rparr>)"
proof -
  have wf0: "wf (ripples still_app)"
    by (simp add: still_app_def wf_def has_shape_zeros WIDTH_def HEIGHT_def)
  have dw: "w (ripples still_app) = WIDTH" and dh: "h (ripples still_app) = HEIGHT"
    by (simp_all add: still_app_def)
  have wf1: "wf (ripples (still_app \<lparr> audio_enabled := False \<rparr>))"
    and dw1: "w (ripples (still_app \<lparr> audio_enabled := False \<rparr>)) = WIDTH"
    and dh1: "h (ripples (still_app \<lparr> audio_enabled := False \<rparr>)) = HEIGHT"
    using wf0 dw dh by simp_all
  have en: "audio_enabled still_app" and inten: "intensity still_app = 1"
    by (simp_all add: still_app_def)
  have cur: "current_grid (ripples still_app) = zeros 600 800"
    and prev: "previous_grid (ripples still_app) = zeros 600 800"
    by (simp_all add: still_app_def current_grid_def previous_grid_def WIDTH_def HEIGHT_def)
  let ?cs = "map (\<lambda>i. (randint 0 (WIDTH - 1) 5, randint 0 (HEIGHT - 1) 5,
                          0.03 * 200 * intensity still_app))
                 [0..<nat (min 10 \<lfloor>0.03 * 200 :: real\<rfloor>)]"
  have h55: "hits 5 5 ?cs = 6" and h65: "hits 6 5 ?cs = 0"
    by (simp_all add: hits_def randint_def WIDTH_def HEIGHT_def inten upt_rec)
  from audio_burst_contract [OF wf0 dw dh, of "0.03" "\<lambda>_. 5"] en
  obtain a' where b: "audio_burst 0.03 (\<lambda>_. 5) still_app = Inr a'"
    and p: "previous_grid (ripples a') = previous_grid (ripples still_app)"
    and c: "\<forall>y<nat HEIGHT. \<forall>x<nat WIDTH.
             current_grid (ripples a') ! y ! x =
               current_grid (ripples still_app) ! y ! x
               + 0.03 * 200 * intensity still_app * real (hits x y ?cs)"
    by auto
  have c55: "current_grid (ripples a') ! 5 ! 5 = 36"
    using c [rule_format, of 5 5] h55
    by (simp add: WIDTH_def HEIGHT_def cur nth_zeros inten)
  have c56: "current_grid (ripples a') ! 5 ! 6 = 0"
    using c [rule_format, of 5 6] h65
    by (simp add: WIDTH_def HEIGHT_def cur nth_zeros inten)
  have off1: "audio_burst 0 (\<lambda>_. 5) still_app = Inr still_app"
    using audio_burst_contract [OF wf0 dw dh, of 0 "\<lambda>_. 5"] by simp
  have off2: "audio_burst 1 (\<lambda>_. 5) (still_app \<lparr> audio_enabled := False \<rparr>) =
     Inr (still_app \<lparr> audio_enabled := False \<rparr>)"
    using audio_burst_contract [OF wf1 dw1 dh1, of 1 "\<lambda>_. 5"] by simp
  show ?thesis
    using wf0 dw dh b c55 c56 p prev off1 off2 by auto
qed

section \<open>Properties of the shading\<close>

text \<open>
  C6. The frame the loop renders depends on the loop state only through the height map,
  the blend factor \<open>t\<close>, the intensity and the normal-shading flag: two states that agree
  on these four give the same result (the same RGB buffer, or the same error).
\<close>

theorem frame_depends_only_on_inputs:
  assumes "current_grid (ripples a) = current_grid (ripples b)"
    and "blend_factor (day_time a) = blend_factor (day_time b)"
    and "intensity a = intensity b"
    and "normal_shading a = normal_shading b"
  shows "frame a = frame b"
  using assms by (simp add: frame_def)

theorem frame_depends_only_on_inputs_witness:
  "current_grid (ripples still_app) = current_grid (ripples busy_app) \<and>
   blend_factor (day_time still_app) = blend_factor (day_time busy_app) \<and>
   intensity still_app = intensity busy_app \<and>
   normal_shading still_app = normal_shading busy_app \<and>
   still_app \<noteq> busy_app \<and>
   frame still_app = frame busy_app \<and>
   (\<exists>img. frame still_app = Inr img \<and> has_shape 600 800 img)"
proof -
  have 1: "current_grid (ripples still_app) = current_grid (ripples busy_app)"
    by (simp add: still_app_def busy_app_def current_grid_def)
  have 2: "blend_factor (day_time still_app) = blend_factor (day_time busy_app)"
    by (simp add: still_app_def busy_app_def blend_factor_def)
  have 3: "intensity still_app = intensity busy_app"
    by (simp add: still_app_def busy_app_def)
  have 4: "normal_shading still_app = normal_shading busy_app"
    by (simp add: still_app_def busy_app_def)
  have 5: "still_app \<noteq> busy_app"
  proof
    assume "still_app = busy_app"
    then have "paused still_app = paused busy_app" by simp
    then show False by (simp add: still_app_def busy_app_def)
  qed
  have z: "has_shape 600 800 (zeros 600 800)" by (rule has_shape_zeros)
  have 6: "\<exists>img. frame still_app = Inr img \<and> has_shape 600 800 img"
    using z
    by (simp add: frame_def render_def lighting_def still_app_def current_grid_def
        HEIGHT_def WIDTH_def has_shape_def list_all_length)
  show ?thesis
    using 1 2 3 4 5 6 frame_depends_only_on_inputs [OF 1 2 3 4] by blast
qed

lemma shade_cell_eq:
  "shade_cell gxv gyv =
     clip (dot3 (normalize3 (0.5, - 0.5, 1.0)) (guarded_normal gxv gyv)) 0 1"
  by (simp add: shade_cell_def light_def normalize3_def dot3_def guarded_normal_def Let_def
      algebra_simps)

lemma nth_gradient1:
  "i < length f \<Longrightarrow> gradient1 f ! i = axis_gradient (\<lambda>j. f ! j) (length f) i"
  by (simp add: gradient1_def axis_gradient_def central_difference_def Let_def)

lemma length_gradient1: "length (gradient1 f) = length f"
  by (simp add: gradient1_def Let_def)

lemma has_shape_gradient_axis1:
  "has_shape rows cols g \<Longrightarrow> has_shape rows cols (gradient_axis1 g)"
  by (simp add: has_shape_def gradient_axis1_def list_all_length length_gradient1)

lemma nth_gradient_axis1:
  "has_shape rows cols g \<Longrightarrow> y < rows \<Longrightarrow> x < cols \<Longrightarrow>
   gradient_axis1 g ! y ! x = axis_gradient (\<lambda>j. g ! y ! j) cols x"
  by (simp add: has_shape_def gradient_axis1_def list_all_length nth_gradient1)

lemma has_shape_gradient_axis0:
  assumes "has_shape rows cols g" and "2 \<le> rows"
  shows "has_shape rows cols (gradient_axis0 g)"
proof -
  have l: "length g = rows" and r: "\<And>i. i < rows \<Longrightarrow> length (g ! i) = cols"
    using assms(1) by (simp_all add: has_shape_def list_all_length)
  show ?thesis
    unfolding has_shape_def list_all_length gradient_axis0_def Let_def
    using l r assms(2) by auto
qed

lemma nth_gradient_axis0:
  assumes "has_shape rows cols g" and "2 \<le> rows" and "y < rows" and "x < cols"
  shows "gradient_axis0 g ! y ! x = axis_gradient (\<lambda>i. g ! i ! x) rows y"
proof -
  have l: "length g = rows" and r: "\<And>i. i < rows \<Longrightarrow> length (g ! i) = cols"
    using assms(1) by (simp_all add: has_shape_def list_all_length)
  show ?thesis
    using l r assms(2,3,4)
    by (auto simp: gradient_axis0_def axis_gradient_def central_difference_def Let_def)
qed

lemma np_gradient_ok:
  assumes "has_shape rows cols g" and "2 \<le> rows" and "2 \<le> cols"
  shows "np_gradient g = Inr (gradient_axis0 g, gradient_axis1 g)"
  using assms by (auto simp: np_gradient_def has_shape_def list_all_iff)


text \<open>
  C5, as the code has it. For a height map with at least two rows and two columns and
  normal shading enabled, the lighting scalar of every cell is the dot product, clamped
  to \<open>[0, 1]\<close>, of the normalised light direction \<open>(0.5, -0.5, 1.0)\<close> with the normal
  \<open>(-gx, -gy, 0.5)\<close> divided by its length plus \<open>1e-8\<close>, where \<open>gx\<close> and \<open>gy\<close> are the
  central differences of the height map at interior indices of the axis and the
  one-sided differences \<open>f[1] - f[0]\<close>, \<open>f[n-1] - f[n-2]\<close> at its first and last index.
  With normal shading disabled the scalar is 0.7 at every cell.
\<close>

theorem lighting_cells:
  assumes "has_shape rows cols g" and "2 \<le> rows" and "2 \<le> cols"
  shows "(\<exists>d. lighting True g = Inr d \<and> has_shape rows cols d \<and>
            (\<forall>y<rows. \<forall>x<cols.
               d ! y ! x =
                 clip (dot3 (normalize3 (0.5, - 0.5, 1.0))
                         (guarded_normal (axis_gradient (\<lambda>j. g ! y ! j) cols x)
                                         (axis_gradient (\<lambda>i. g ! i ! x) rows y))) 0 1)) \<and>
         (\<exists>d. lighting False g = Inr d \<and> has_shape rows cols d \<and>
            (\<forall>y<rows. \<forall>x<cols. d ! y ! x = 0.7))"
proof (intro conjI)
  let ?gx = "gradient_axis1 g" and ?gy = "gradient_axis0 g"
  let ?d = "map2 (map2 shade_cell) ?gx ?gy"
  have sx: "has_shape rows cols ?gx"
    using assms(1) by (rule has_shape_gradient_axis1)
  have sy: "has_shape rows cols ?gy"
    using assms(1,2) by (rule has_shape_gradient_axis0)
  have l: "lighting True g = Inr ?d"
    using np_gradient_ok [OF assms] by (simp add: lighting_def)
  have sd: "has_shape rows cols ?d"
    using sx sy by (auto simp: has_shape_def list_all_length)
  have c: "\<forall>y<rows. \<forall>x<cols.
      ?d ! y ! x =
        clip (dot3 (normalize3 (0.5, - 0.5, 1.0))
                (guarded_normal (axis_gradient (\<lambda>j. g ! y ! j) cols x)
                                (axis_gradient (\<lambda>i. g ! i ! x) rows y))) 0 1"
  proof (intro allI impI)
    fix y x assume y: "y < rows" and x: "x < cols"
    have "?d ! y ! x = shade_cell (?gx ! y ! x) (?gy ! y ! x)"
      using sx sy y x by (simp add: has_shape_def list_all_length)
    then show "?d ! y ! x =
        clip (dot3 (normalize3 (0.5, - 0.5, 1.0))
                (guarded_normal (axis_gradient (\<lambda>j. g ! y ! j) cols x)
                                (axis_gradient (\<lambda>i. g ! i ! x) rows y))) 0 1"
      using assms y x
      by (simp add: shade_cell_eq nth_gradient_axis1 [of rows cols]
          nth_gradient_axis0 [of rows cols])
  qed
  show "\<exists>d. lighting True g = Inr d \<and> has_shape rows cols d \<and>
            (\<forall>y<rows. \<forall>x<cols.
               d ! y ! x =
                 clip (dot3 (normalize3 (0.5, - 0.5, 1.0))
                         (guarded_normal (axis_gradient (\<lambda>j. g ! y ! j) cols x)
                                         (axis_gradient (\<lambda>i. g ! i ! x) rows y))) 0 1)"
    using l sd c by blast
next
  let ?d = "map (map (\<lambda>_. 1 * 0.7 :: real)) g"
  have "lighting False g = Inr ?d" by (simp add: lighting_def)
  moreover have "has_shape rows cols ?d"
    using assms(1) by (simp add: has_shape_def list_all_length)
  moreover have "\<forall>y<rows. \<forall>x<cols. ?d ! y ! x = 0.7"
    using assms(1) by (simp add: has_shape_def list_all_length)
  ultimately show "\<exists>d. lighting False g = Inr d \<and> has_shape rows cols d \<and>
            (\<forall>y<rows. \<forall>x<cols. d ! y ! x = 0.7)"
    by blast
qed

lemma sqrt_bounds:
  "1.22 \<le> sqrt 1.5" "sqrt 1.5 \<le> 1.23" "2.06 \<le> sqrt 4.25" "sqrt 1.25 \<le> 1.12"
  "sqrt 0.25 = 0.5"
proof -
  show "1.22 \<le> sqrt 1.5" by (rule real_le_rsqrt) (simp add: power2_eq_square)
  show "sqrt 1.5 \<le> 1.23" by (rule real_le_lsqrt) (simp_all add: power2_eq_square)
  show "2.06 \<le> sqrt 4.25" by (rule real_le_rsqrt) (simp add: power2_eq_square)
  show "sqrt 1.25 \<le> 1.12" by (rule real_le_lsqrt) (simp_all add: power2_eq_square)
  show "sqrt 0.25 = 0.5" using real_sqrt_abs [of "0.5"] by (simp add: power2_eq_square)
qed

lemma shade_cell_edge: "shade_cell (- 2) 0 < 0.6"
proof -
  let ?n = "sqrt 4.25 + 0.00000001" and ?l = "sqrt 1.5"
  have n: "2.06 \<le> ?n" using sqrt_bounds(3) by simp
  have l: "1.22 \<le> ?l" by (rule sqrt_bounds)
  have v: "2 / ?n * (0.5 / ?l) + 0.5 / ?n * (1 / ?l) = 1.5 / (?n * ?l)"
    using n l by (simp add: field_simps)
  have "2.06 * 1.22 \<le> ?n * ?l"
    using n l by (intro mult_mono) simp_all
  then have p: "2.5 < ?n * ?l" by simp
  then have "1.5 / (?n * ?l) < 0.6"
    by (simp add: field_simps)
  then have "2 / ?n * (0.5 / ?l) + 0.5 / ?n * (1 / ?l) < 0.6"
    using v by simp
  then show ?thesis
    by (simp add: shade_cell_def light_def Let_def clip_def min_def max_def)
qed

lemma clip_ge: "k \<le> v \<Longrightarrow> k \<le> hi \<Longrightarrow> k \<le> clip v lo hi"
  by (simp add: clip_def min_def max_def)

lemma claimed_lighting_slope: "0.7 \<le> claimed_lighting (- 1) 0"
proof -
  let ?n = "sqrt 1.25" and ?l = "sqrt 1.5"
  have n: "?n \<le> 1.12" and l: "?l \<le> 1.23" by (rule sqrt_bounds)+
  have n0: "0 < ?n" and l0: "0 < ?l" by simp_all
  have pos: "0 < ?l * ?n" using n0 l0 by (rule mult_pos_pos [rotated])
  have v: "dot3 (normalize3 (0.5, - 0.5, 1.0)) (normalize3 (- (- 1), - 0, 0.5)) = 1 / (?l * ?n)"
    using n0 l0 by (simp add: normalize3_def dot3_def field_simps)
  have "?l * ?n \<le> 1.23 * 1.12"
    using n l n0 l0 by (intro mult_mono) simp_all
  then have "?l * ?n \<le> 10 / 7" by simp
  then have "0.7 \<le> 1 / (?l * ?n)"
    using pos by (simp add: field_simps)
  then have "0.7 \<le> dot3 (normalize3 (0.5, - 0.5, 1.0)) (normalize3 (- (- 1), - 0, 0.5))"
    by (simp only: v)
  then show ?thesis
    unfolding claimed_lighting_def by (rule clip_ge) simp
qed

lemma claimed_lighting_flat: "0.7 \<le> claimed_lighting 0 0"
proof -
  let ?l = "sqrt 1.5"
  have l: "?l \<le> 1.23" by (rule sqrt_bounds)
  have l0: "0 < ?l" by simp
  have "0.7 \<le> 1 / ?l" using l l0 by (simp add: field_simps)
  then show ?thesis
    using sqrt_bounds(5)
    by (simp add: claimed_lighting_def normalize3_def dot3_def clip_def min_def max_def)
qed


lemma has_shape_ridge: "has_shape 3 3 ridge"
  by (simp add: has_shape_def ridge_def)

lemma lighting_ridge_corner:
  "\<exists>d. lighting True ridge = Inr d \<and> d ! 0 ! 0 = shade_cell (- 2) 0"
proof -
  let ?gx = "gradient_axis1 ridge" and ?gy = "gradient_axis0 ridge"
  let ?d = "map2 (map2 shade_cell) ?gx ?gy"
  have l: "lighting True ridge = Inr ?d"
    using np_gradient_ok [OF has_shape_ridge] by (simp add: lighting_def)
  have sx: "has_shape 3 3 ?gx"
    using has_shape_ridge by (rule has_shape_gradient_axis1)
  have sy: "has_shape 3 3 ?gy"
    using has_shape_ridge by (rule has_shape_gradient_axis0) simp
  have gx: "?gx ! 0 ! 0 = - 2"
    using nth_gradient_axis1 [OF has_shape_ridge, of 0 0]
    by (simp add: axis_gradient_def ridge_def)
  have gy: "?gy ! 0 ! 0 = 0"
    using nth_gradient_axis0 [OF has_shape_ridge, of 0 0]
    by (simp add: axis_gradient_def ridge_def)
  have "?d ! 0 ! 0 = shade_cell (?gx ! 0 ! 0) (?gy ! 0 ! 0)"
    using sx sy by (simp add: has_shape_def list_all_length)
  then have "?d ! 0 ! 0 = shade_cell (- 2) 0"
    by (simp only: gx gy)
  then show ?thesis using l by blast
qed

text \<open>
  C5 as stated fails at an edge cell. On the height map \<open>ridge\<close> the code's lighting
  scalar at cell \<open>(0, 0)\<close> comes from the one-sided differences \<open>gx = -2\<close>, \<open>gy = 0\<close> and
  is below 0.6. A central difference reads a neighbour on each side; whichever cell of
  row 0 stands for the missing left neighbour and whichever cell of column 0 for the
  missing upper one (wraparound and edge replication are two such choices), the claimed
  scalar is at least 0.7.
\<close>

theorem lighting_edge_counterexample:
  "\<exists>d. lighting True ridge = Inr d \<and>
     \<not> (\<exists>v \<in> set (ridge ! 0). \<exists>u \<in> set (map (\<lambda>r. r ! 0) ridge).
          d ! 0 ! 0 = claimed_lighting (central_difference v (ridge ! 0 ! 1))
                                       (central_difference u (ridge ! 1 ! 0)))"
proof -
  obtain d where l: "lighting True ridge = Inr d" and c: "d ! 0 ! 0 = shade_cell (- 2) 0"
    using lighting_ridge_corner by blast
  have lt: "d ! 0 ! 0 < 0.6" using c shade_cell_edge by simp
  have "\<not> (\<exists>v \<in> set (ridge ! 0). \<exists>u \<in> set (map (\<lambda>r. r ! 0) ridge).
          d ! 0 ! 0 = claimed_lighting (central_difference v (ridge ! 0 ! 1))
                                       (central_difference u (ridge ! 1 ! 0)))"
  proof
    assume "\<exists>v \<in> set (ridge ! 0). \<exists>u \<in> set (map (\<lambda>r. r ! 0) ridge).
          d ! 0 ! 0 = claimed_lighting (central_difference v (ridge ! 0 ! 1))
                                       (central_difference u (ridge ! 1 ! 0))"
    then have "d ! 0 ! 0 = claimed_lighting (- 1) 0 \<or> d ! 0 ! 0 = claimed_lighting 0 0"
      by (auto simp: ridge_def central_difference_def)
    then show False
      using lt claimed_lighting_slope claimed_lighting_flat by auto
  qed
  then show ?thesis using l by blast
qed

theorem lighting_cells_witness:
  "has_shape 3 3 ridge \<and> (2::nat) \<le> 3 \<and>
   (\<exists>d. lighting True ridge = Inr d \<and>
      d ! 1 ! 1 = clip (dot3 (normalize3 (0.5, - 0.5, 1.0)) (guarded_normal 0 0)) 0 1 \<and>
      d ! 0 ! 0 = clip (dot3 (normalize3 (0.5, - 0.5, 1.0)) (guarded_normal (- 2) 0)) 0 1 \<and>
      d ! 2 ! 2 = clip (dot3 (normalize3 (0.5, - 0.5, 1.0)) (guarded_normal 2 0)) 0 1) \<and>
   (\<exists>d. lighting False ridge = Inr d \<and> d ! 2 ! 1 = 0.7)"
proof -
  have a: "has_shape 3 3 ridge" "(2::nat) \<le> 3" "(2::nat) \<le> 3"
    by (simp_all add: has_shape_def ridge_def)
  from lighting_cells [OF a]
  obtain d d' where l: "lighting True ridge = Inr d"
    and c: "\<forall>y<3. \<forall>x<3. d ! y ! x =
                 clip (dot3 (normalize3 (0.5, - 0.5, 1.0))
                         (guarded_normal (axis_gradient (\<lambda>j. ridge ! y ! j) 3 x)
                                         (axis_gradient (\<lambda>i. ridge ! i ! x) 3 y))) 0 1"
    and l': "lighting False ridge = Inr d'"
    and c': "\<forall>y<3. \<forall>x<3. d' ! y ! x = 0.7"
    by blast
  have 1: "d ! 1 ! 1 = clip (dot3 (normalize3 (0.5, - 0.5, 1.0)) (guarded_normal 0 0)) 0 1"
    using c [rule_format, of 1 1]
    by (simp add: axis_gradient_def central_difference_def ridge_def)
  have 2: "d ! 0 ! 0 = clip (dot3 (normalize3 (0.5, - 0.5, 1.0)) (guarded_normal (- 2) 0)) 0 1"
    using c [rule_format, of 0 0]
    by (simp add: axis_gradient_def central_difference_def ridge_def)
  have 3: "d ! 2 ! 2 = clip (dot3 (normalize3 (0.5, - 0.5, 1.0)) (guarded_normal 2 0)) 0 1"
    using c [rule_format, of 2 2]
    by (simp add: axis_gradient_def central_difference_def ridge_def)
  have 4: "d' ! 2 ! 1 = 0.7" using c' [rule_format, of 2 1] by simp
  show ?thesis using a l l' 1 2 3 4 by blast
qed

section \<open>Energy of the damped wave field\<close>

lemma wrap_id: "i < n \<Longrightarrow> wrap (int i) n = i"
  by (simp add: wrap_def)

lemma wrap_wrap: "0 < n \<Longrightarrow> wrap (int (wrap a n) + b) n = wrap (a + b) n"
  by (simp add: wrap_def mod_add_left_eq)

lemma wrap_wrap_diff: "0 < n \<Longrightarrow> wrap (int (wrap a n) - b) n = wrap (a - b) n"
  using wrap_wrap [of n a "- b"] by simp

lemma sum_wrap_shift:
  "(\<Sum>i<n. f (wrap (int i + k) n)) = (\<Sum>i<n. f i)"
proof (cases "n = 0")
  case True
  then show ?thesis by simp
next
  case False
  then have n: "0 < n" by simp
  show ?thesis
  proof (rule sum.reindex_bij_witness [where j = "\<lambda>i. wrap (int i + k) n"
        and i = "\<lambda>j. wrap (int j - k) n"])
    fix a assume "a \<in> {..<n}"
    then show "wrap (int (wrap (int a + k) n) - k) n = a"
      using n by (simp add: wrap_wrap_diff wrap_id)
  next
    fix a assume "a \<in> {..<n}"
    show "wrap (int a + k) n \<in> {..<n}" using n by (simp add: wrap_less)
  next
    fix b assume "b \<in> {..<n}"
    then show "wrap (int (wrap (int b - k) n) + k) n = b"
      using n by (simp add: wrap_wrap wrap_id)
  next
    fix b assume "b \<in> {..<n}"
    show "wrap (int b - k) n \<in> {..<n}" using n by (simp add: wrap_less)
  next
    fix a assume "a \<in> {..<n}"
    show "f (wrap (int a + k) n) = f (wrap (int a + k) n)" by simp
  qed
qed


lemma sum_cells_shift0:
  "(\<Sum>y<rows. \<Sum>x<cols. f (wrap (int y + k) rows) x) = (\<Sum>y<rows. \<Sum>x<cols. f y x)"
  by (rule sum_wrap_shift [of "\<lambda>y. \<Sum>x<cols. f y x" k rows])

lemma sum_cells_shift1:
  "(\<Sum>y<rows. \<Sum>x<cols. f y (wrap (int x + k) cols)) = (\<Sum>y<rows. \<Sum>x<cols. f y x)"
  by (rule sum.cong [OF refl]) (rule sum_wrap_shift)


lemma sum_cells_adj0:
  "(\<Sum>y<rows. \<Sum>x<cols. f y x * g (wrap (int y + k) rows) x) =
   (\<Sum>y<rows. \<Sum>x<cols. f (wrap (int y - k) rows) x * g y x)"
proof (cases "rows = 0")
  case True
  then show ?thesis by simp
next
  case False
  then have r: "0 < rows" by simp
  have "(\<Sum>y<rows. \<Sum>x<cols. f (wrap (int y - k) rows) x * g y x) =
        (\<Sum>y<rows. \<Sum>x<cols. f (wrap (int (wrap (int y + k) rows) - k) rows) x
                                  * g (wrap (int y + k) rows) x)"
    by (rule sum_cells_shift0
        [of "\<lambda>y x. f (wrap (int y - k) rows) x * g y x" k rows cols, symmetric])
  also have "\<dots> = (\<Sum>y<rows. \<Sum>x<cols. f y x * g (wrap (int y + k) rows) x)"
    using r by (intro sum.cong refl) (simp add: wrap_wrap_diff wrap_id)
  finally show ?thesis by simp
qed

lemma sum_cells_adj1:
  "(\<Sum>y<rows. \<Sum>x<cols. f y x * g y (wrap (int x + k) cols)) =
   (\<Sum>y<rows. \<Sum>x<cols. f y (wrap (int x - k) cols) * g y x)"
proof (cases "cols = 0")
  case True
  then show ?thesis by simp
next
  case False
  then have r: "0 < cols" by simp
  have "(\<Sum>y<rows. \<Sum>x<cols. f y (wrap (int x - k) cols) * g y x) =
        (\<Sum>y<rows. \<Sum>x<cols. f y (wrap (int (wrap (int x + k) cols) - k) cols)
                                  * g y (wrap (int x + k) cols))"
    by (rule sum_cells_shift1
        [of "\<lambda>y x. f y (wrap (int x - k) cols) * g y x" k cols rows, symmetric])
  also have "\<dots> = (\<Sum>y<rows. \<Sum>x<cols. f y x * g y (wrap (int x + k) cols))"
    using r by (intro sum.cong refl) (simp add: wrap_wrap_diff wrap_id)
  finally show ?thesis by simp
qed

lemma neighbours_sym:
  "(\<Sum>y<rows. \<Sum>x<cols. f y x * neighbours rows cols g y x) =
   (\<Sum>y<rows. \<Sum>x<cols. neighbours rows cols f y x * g y x)"
proof -
  have a: "(\<Sum>y<rows. \<Sum>x<cols. f y x * g (wrap (int y - 1) rows) x) =
           (\<Sum>y<rows. \<Sum>x<cols. f (wrap (int y + 1) rows) x * g y x)"
    using sum_cells_adj0 [where k = "- 1" and f = f and g = g and rows = rows and cols = cols] by simp
  have b: "(\<Sum>y<rows. \<Sum>x<cols. f y x * g (wrap (int y + 1) rows) x) =
           (\<Sum>y<rows. \<Sum>x<cols. f (wrap (int y - 1) rows) x * g y x)"
    by (rule sum_cells_adj0)
  have c: "(\<Sum>y<rows. \<Sum>x<cols. f y x * g y (wrap (int x - 1) cols)) =
           (\<Sum>y<rows. \<Sum>x<cols. f y (wrap (int x + 1) cols) * g y x)"
    using sum_cells_adj1 [where k = "- 1" and f = f and g = g and rows = rows and cols = cols] by simp
  have d: "(\<Sum>y<rows. \<Sum>x<cols. f y x * g y (wrap (int x + 1) cols)) =
           (\<Sum>y<rows. \<Sum>x<cols. f y (wrap (int x - 1) cols) * g y x)"
    by (rule sum_cells_adj1)
  show ?thesis
    unfolding neighbours_def
    by (simp add: distrib_left distrib_right sum.distrib a b c d)
qed


lemma product_le_squares: "(a::real) * b \<le> (a\<^sup>2 + b\<^sup>2) / 2"
proof -
  have "0 \<le> (a - b)\<^sup>2" by simp
  then show ?thesis by (simp add: power2_eq_square algebra_simps)
qed

lemma sum_cells_bound0:
  fixes f g :: "nat \<Rightarrow> nat \<Rightarrow> real"
  shows "(\<Sum>y<rows. \<Sum>x<cols. f y x * g (wrap (int y + k) rows) x) \<le>
   ((\<Sum>y<rows. \<Sum>x<cols. (f y x)\<^sup>2) + (\<Sum>y<rows. \<Sum>x<cols. (g y x)\<^sup>2)) / 2"
proof -
  have "(\<Sum>y<rows. \<Sum>x<cols. f y x * g (wrap (int y + k) rows) x) \<le>
        (\<Sum>y<rows. \<Sum>x<cols. ((f y x)\<^sup>2 + (g (wrap (int y + k) rows) x)\<^sup>2) / 2)"
    by (intro sum_mono product_le_squares)
  also have "\<dots> = ((\<Sum>y<rows. \<Sum>x<cols. (f y x)\<^sup>2)
                    + (\<Sum>y<rows. \<Sum>x<cols. (g (wrap (int y + k) rows) x)\<^sup>2)) / 2"
    by (simp add: sum.distrib sum_divide_distrib add_divide_distrib)
  also have "(\<Sum>y<rows. \<Sum>x<cols. (g (wrap (int y + k) rows) x)\<^sup>2) =
             (\<Sum>y<rows. \<Sum>x<cols. (g y x)\<^sup>2)"
    by (rule sum_cells_shift0 [of "\<lambda>y x. (g y x)\<^sup>2"])
  finally show ?thesis .
qed

lemma sum_cells_bound1:
  fixes f g :: "nat \<Rightarrow> nat \<Rightarrow> real"
  shows "(\<Sum>y<rows. \<Sum>x<cols. f y x * g y (wrap (int x + k) cols)) \<le>
   ((\<Sum>y<rows. \<Sum>x<cols. (f y x)\<^sup>2) + (\<Sum>y<rows. \<Sum>x<cols. (g y x)\<^sup>2)) / 2"
proof -
  have "(\<Sum>y<rows. \<Sum>x<cols. f y x * g y (wrap (int x + k) cols)) \<le>
        (\<Sum>y<rows. \<Sum>x<cols. ((f y x)\<^sup>2 + (g y (wrap (int x + k) cols))\<^sup>2) / 2)"
    by (intro sum_mono product_le_squares)
  also have "\<dots> = ((\<Sum>y<rows. \<Sum>x<cols. (f y x)\<^sup>2)
                    + (\<Sum>y<rows. \<Sum>x<cols. (g y (wrap (int x + k) cols))\<^sup>2)) / 2"
    by (simp add: sum.distrib sum_divide_distrib add_divide_distrib)
  also have "(\<Sum>y<rows. \<Sum>x<cols. (g y (wrap (int x + k) cols))\<^sup>2) =
             (\<Sum>y<rows. \<Sum>x<cols. (g y x)\<^sup>2)"
    by (rule sum_cells_shift1 [of "\<lambda>y x. (g y x)\<^sup>2"])
  finally show ?thesis .
qed

lemma neighbours_bound:
  "(\<Sum>y<rows. \<Sum>x<cols. f y x * neighbours rows cols g y x) \<le>
   2 * ((\<Sum>y<rows. \<Sum>x<cols. (f y x)\<^sup>2) + (\<Sum>y<rows. \<Sum>x<cols. (g y x)\<^sup>2))"
proof -
  let ?B = "((\<Sum>y<rows. \<Sum>x<cols. (f y x)\<^sup>2) + (\<Sum>y<rows. \<Sum>x<cols. (g y x)\<^sup>2)) / 2"
  have a: "(\<Sum>y<rows. \<Sum>x<cols. f y x * g (wrap (int y - 1) rows) x) \<le> ?B"
    using sum_cells_bound0 [where k = "- 1" and f = f and g = g and rows = rows and cols = cols]
    by simp
  have b: "(\<Sum>y<rows. \<Sum>x<cols. f y x * g (wrap (int y + 1) rows) x) \<le> ?B"
    by (rule sum_cells_bound0)
  have c: "(\<Sum>y<rows. \<Sum>x<cols. f y x * g y (wrap (int x - 1) cols)) \<le> ?B"
    using sum_cells_bound1 [where k = "- 1" and f = f and g = g and rows = rows and cols = cols]
    by simp
  have d: "(\<Sum>y<rows. \<Sum>x<cols. f y x * g y (wrap (int x + 1) cols)) \<le> ?B"
    by (rule sum_cells_bound1)
  have "(\<Sum>y<rows. \<Sum>x<cols. f y x * neighbours rows cols g y x) =
        (\<Sum>y<rows. \<Sum>x<cols. f y x * g (wrap (int y - 1) rows) x)
        + (\<Sum>y<rows. \<Sum>x<cols. f y x * g (wrap (int y + 1) rows) x)
        + (\<Sum>y<rows. \<Sum>x<cols. f y x * g y (wrap (int x - 1) cols))
        + (\<Sum>y<rows. \<Sum>x<cols. f y x * g y (wrap (int x + 1) cols))"
    unfolding neighbours_def by (simp add: distrib_left sum.distrib)
  then show ?thesis using a b c d by linarith
qed

lemma leapfrog_identity:
  fixes c p :: "nat \<Rightarrow> nat \<Rightarrow> real" and d :: real and rows cols :: nat
  defines "n \<equiv> \<lambda>y x. d * (neighbours rows cols c y x / 2 - p y x)"
  shows "(\<Sum>y<rows. \<Sum>x<cols. (n y x)\<^sup>2) + d * (\<Sum>y<rows. \<Sum>x<cols. (c y x)\<^sup>2)
           - d * (\<Sum>y<rows. \<Sum>x<cols. n y x * (neighbours rows cols c y x / 2)) =
         d * ((\<Sum>y<rows. \<Sum>x<cols. (c y x)\<^sup>2) + d * (\<Sum>y<rows. \<Sum>x<cols. (p y x)\<^sup>2)
           - d * (\<Sum>y<rows. \<Sum>x<cols. c y x * (neighbours rows cols p y x / 2)))"
proof -
  let ?N = "neighbours rows cols c"
  define X where "X = (\<Sum>y<rows. \<Sum>x<cols. (?N y x)\<^sup>2)"
  define Y where "Y = (\<Sum>y<rows. \<Sum>x<cols. ?N y x * p y x)"
  define Z where "Z = (\<Sum>y<rows. \<Sum>x<cols. (p y x)\<^sup>2)"
  have "(\<Sum>y<rows. \<Sum>x<cols. (n y x)\<^sup>2) =
        (\<Sum>y<rows. \<Sum>x<cols. d\<^sup>2 / 4 * (?N y x)\<^sup>2 - d\<^sup>2 * (?N y x * p y x) + d\<^sup>2 * (p y x)\<^sup>2)"
    unfolding n_def by (intro sum.cong refl) (simp add: power2_eq_square algebra_simps)
  also have "\<dots> = d\<^sup>2 / 4 * X - d\<^sup>2 * Y + d\<^sup>2 * Z"
    unfolding X_def Y_def Z_def
    by (simp add: sum.distrib sum_subtractf sum_distrib_left)
  finally have n2: "(\<Sum>y<rows. \<Sum>x<cols. (n y x)\<^sup>2) = d\<^sup>2 / 4 * X - d\<^sup>2 * Y + d\<^sup>2 * Z" .
  have "(\<Sum>y<rows. \<Sum>x<cols. n y x * (?N y x / 2)) =
        (\<Sum>y<rows. \<Sum>x<cols. d / 4 * (?N y x)\<^sup>2 - d / 2 * (?N y x * p y x))"
    unfolding n_def by (intro sum.cong refl) (simp add: power2_eq_square algebra_simps)
  also have "\<dots> = d / 4 * X - d / 2 * Y"
    unfolding X_def Y_def by (simp add: sum_subtractf sum_distrib_left)
  finally have nN: "(\<Sum>y<rows. \<Sum>x<cols. n y x * (?N y x / 2)) = d / 4 * X - d / 2 * Y" .
  have "(\<Sum>y<rows. \<Sum>x<cols. c y x * (neighbours rows cols p y x / 2)) =
        (\<Sum>y<rows. \<Sum>x<cols. c y x * neighbours rows cols p y x) / 2"
    by (simp add: sum_divide_distrib)
  also have "\<dots> = Y / 2"
    unfolding Y_def by (simp only: neighbours_sym)
  finally have cN: "(\<Sum>y<rows. \<Sum>x<cols. c y x * (neighbours rows cols p y x / 2)) = Y / 2" .
  show ?thesis
    unfolding n2 nN cN Z_def [symmetric]
    by (simp add: power2_eq_square algebra_simps)
qed

lemma sum_list_map_nth: "(\<Sum>x\<leftarrow>xs. f x) = (\<Sum>i<length xs. f (xs ! i))"
proof -
  have "(\<Sum>x\<leftarrow>xs. f x) = (\<Sum>i = 0..<length (map f xs). map f xs ! i)"
    by (rule sum_list_sum_nth)
  also have "\<dots> = (\<Sum>i<length xs. f (xs ! i))"
    by (simp add: atLeast0LessThan)
  finally show ?thesis .
qed

lemma energy_sum:
  assumes "has_shape rows cols g"
  shows "energy g = (\<Sum>y<rows. \<Sum>x<cols. (g ! y ! x)\<^sup>2)"
proof -
  have l: "length g = rows" and r: "\<And>y. y < rows \<Longrightarrow> length (g ! y) = cols"
    using assms by (simp_all add: has_shape_def list_all_length)
  have "energy g = (\<Sum>y<length g. \<Sum>x<length (g ! y). (g ! y ! x)\<^sup>2)"
    unfolding energy_def by (simp add: sum_list_map_nth)
  also have "\<dots> = (\<Sum>y<rows. \<Sum>x<cols. (g ! y ! x)\<^sup>2)"
    using l r by (intro sum.cong) simp_all
  finally show ?thesis .
qed

lemma inner_grid_sum:
  assumes "has_shape rows cols a" and "has_shape rows cols b"
  shows "inner_grid a b = (\<Sum>y<rows. \<Sum>x<cols. a ! y ! x * b ! y ! x)"
proof -
  have la: "length a = rows" and ra: "\<And>y. y < rows \<Longrightarrow> length (a ! y) = cols"
    using assms(1) by (simp_all add: has_shape_def list_all_length)
  have lb: "length b = rows" and rb: "\<And>y. y < rows \<Longrightarrow> length (b ! y) = cols"
    using assms(2) by (simp_all add: has_shape_def list_all_length)
  have "inner_grid a b =
        (\<Sum>y<length (zip a b). case zip a b ! y of (r, s) \<Rightarrow>
            (\<Sum>x<length (zip r s). case zip r s ! x of (u, v) \<Rightarrow> u * v))"
    unfolding inner_grid_def by (simp add: sum_list_map_nth)
  also have "\<dots> = (\<Sum>y<rows. \<Sum>x<cols. a ! y ! x * b ! y ! x)"
    using la lb ra rb by (intro sum.cong) simp_all
  finally show ?thesis .
qed

lemma lap_neighbour_sum: "lap c = sub_grid (neighbour_sum c) (scale_grid 4 c)"
  by (simp add: lap_def neighbour_sum_def)

lemma has_shape_neighbour_sum:
  "has_shape rows cols c \<Longrightarrow> has_shape rows cols (neighbour_sum c)"
  unfolding neighbour_sum_def
  by (intro has_shape_add_grid has_shape_roll_axis0 has_shape_roll_axis1)

lemma nth_neighbour_sum:
  assumes c: "has_shape rows cols c" and y: "y < rows" and x: "x < cols"
  shows "neighbour_sum c ! y ! x = neighbours rows cols (\<lambda>i j. c ! i ! j) y x"
proof -
  note sh = has_shape_add_grid has_shape_roll_axis0 has_shape_roll_axis1
  show ?thesis
    unfolding neighbour_sum_def neighbours_def
    using c y x
    by (simp add: nth_add_grid [of rows cols] nth_roll_axis0 [of rows cols]
        nth_roll_axis1 [of rows cols] sh)
qed

lemma toroidal_laplacian_neighbours:
  "toroidal_laplacian c rows cols y x =
     neighbours rows cols (\<lambda>i j. c ! i ! j) y x - 4 * c ! y ! x"
  by (simp add: toroidal_laplacian_def neighbours_def)

lemma nth_wave_new_neighbours:
  assumes "has_shape rows cols c" and "has_shape rows cols p" and "y < rows" and "x < cols"
  shows "wave_new c p ! y ! x =
     DAMPING * (neighbours rows cols (\<lambda>i j. c ! i ! j) y x / 2 - p ! y ! x)"
  using assms
  by (simp add: nth_wave_new [of rows cols] toroidal_laplacian_neighbours algebra_simps)

lemma leapfrog_energy_sum:
  assumes c: "has_shape rows cols c" and p: "has_shape rows cols p"
  shows "leapfrog_energy c p =
     (\<Sum>y<rows. \<Sum>x<cols. (c ! y ! x)\<^sup>2) + DAMPING * (\<Sum>y<rows. \<Sum>x<cols. (p ! y ! x)\<^sup>2)
     - DAMPING * (\<Sum>y<rows. \<Sum>x<cols.
          c ! y ! x * (neighbours rows cols (\<lambda>i j. p ! i ! j) y x / 2))"
proof -
  have s: "has_shape rows cols (scale_grid 0.5 (neighbour_sum p))"
    using p by (intro has_shape_scale_grid has_shape_neighbour_sum)
  have "inner_grid c (scale_grid 0.5 (neighbour_sum p)) =
        (\<Sum>y<rows. \<Sum>x<cols. c ! y ! x * scale_grid 0.5 (neighbour_sum p) ! y ! x)"
    using c s by (rule inner_grid_sum)
  also have "\<dots> = (\<Sum>y<rows. \<Sum>x<cols.
          c ! y ! x * (neighbours rows cols (\<lambda>i j. p ! i ! j) y x / 2))"
    using p
    by (intro sum.cong refl)
      (simp add: nth_scale_grid [of rows cols] has_shape_neighbour_sum
        nth_neighbour_sum [of rows cols])
  finally show ?thesis
    using c p by (simp add: leapfrog_energy_def energy_sum [of rows cols])
qed

lemma leapfrog_energy_step:
  assumes c: "has_shape rows cols c" and p: "has_shape rows cols p"
  shows "leapfrog_energy (wave_new c p) c = DAMPING * leapfrog_energy c p"
proof -
  let ?n = "\<lambda>y x. DAMPING * (neighbours rows cols (\<lambda>i j. c ! i ! j) y x / 2 - p ! y ! x)"
  have w: "has_shape rows cols (wave_new c p)"
    using c p by (rule has_shape_wave_new)
  have e1: "(\<Sum>y<rows. \<Sum>x<cols. (wave_new c p ! y ! x)\<^sup>2) = (\<Sum>y<rows. \<Sum>x<cols. (?n y x)\<^sup>2)"
    using c p by (intro sum.cong refl) (simp add: nth_wave_new_neighbours [of rows cols])
  have e2: "(\<Sum>y<rows. \<Sum>x<cols.
          wave_new c p ! y ! x * (neighbours rows cols (\<lambda>i j. c ! i ! j) y x / 2)) =
        (\<Sum>y<rows. \<Sum>x<cols. ?n y x * (neighbours rows cols (\<lambda>i j. c ! i ! j) y x / 2))"
    using c p by (intro sum.cong refl) (simp add: nth_wave_new_neighbours [of rows cols])
  show ?thesis
    unfolding leapfrog_energy_sum [OF w c] leapfrog_energy_sum [OF c p] e1 e2
    by (rule leapfrog_identity)
qed

lemma energy_le_leapfrog:
  assumes c: "has_shape rows cols c" and p: "has_shape rows cols p"
  shows "(1 - DAMPING) * energy c \<le> leapfrog_energy c p"
proof -
  let ?C = "\<Sum>y<rows. \<Sum>x<cols. (c ! y ! x)\<^sup>2"
  let ?P = "\<Sum>y<rows. \<Sum>x<cols. (p ! y ! x)\<^sup>2"
  let ?K = "\<Sum>y<rows. \<Sum>x<cols. c ! y ! x * neighbours rows cols (\<lambda>i j. p ! i ! j) y x"
  have k: "?K \<le> 2 * (?C + ?P)" by (rule neighbours_bound)
  have h: "(\<Sum>y<rows. \<Sum>x<cols.
          c ! y ! x * (neighbours rows cols (\<lambda>i j. p ! i ! j) y x / 2)) = ?K / 2"
    by (simp add: sum_divide_distrib)
  have d: "0 \<le> DAMPING" by (simp add: DAMPING_def)
  have "DAMPING * (?K / 2) \<le> DAMPING * (?C + ?P)"
    using k d by (intro mult_left_mono) simp_all
  then show ?thesis
    unfolding leapfrog_energy_sum [OF c p] energy_sum [OF c] h
    by (simp add: algebra_simps)
qed

lemma leapfrog_oscillates:
  fixes u :: "nat \<Rightarrow> real"
  assumes u0: "u 0 \<noteq> 0"
    and rec: "\<And>n. u (Suc (Suc n)) = DAMPING * (2 * u (Suc n) - u n)"
  shows "\<not> (\<exists>N. \<forall>n\<ge>N. (u (Suc n))\<^sup>2 \<le> (u n)\<^sup>2)"
proof
  assume "\<exists>N. \<forall>n\<ge>N. (u (Suc n))\<^sup>2 \<le> (u n)\<^sup>2"
  then obtain N where mono: "\<And>n. N \<le> n \<Longrightarrow> (u (Suc n))\<^sup>2 \<le> (u n)\<^sup>2"
    by blast
  have pair: "\<not> (u n = 0 \<and> u (Suc n) = 0)" for n
  proof (induction n)
    case 0
    then show ?case using u0 by simp
  next
    case (Suc n)
    show ?case
    proof
      assume z: "u (Suc n) = 0 \<and> u (Suc (Suc n)) = 0"
      have "u (Suc (Suc n)) = DAMPING * (2 * u (Suc n) - u n)" by (rule rec)
      then have "0 = 0.995 * (2 * 0 - u n)" using z by (simp only: DAMPING_def)
      then have "u n = 0" by simp
      then show False using Suc z by simp
    qed
  qed
  have nz: "u n \<noteq> 0" if "N \<le> n" for n
  proof
    assume z: "u n = 0"
    then have "(u (Suc n))\<^sup>2 \<le> 0" using mono [OF that] by simp
    then have "u (Suc n) = 0" by simp
    then show False using z pair [of n] by simp
  qed
  define r where "r n = u (Suc n) / u n" for n
  have rsq: "(r n)\<^sup>2 \<le> 1" if "N \<le> n" for n
  proof -
    have "0 < (u n)\<^sup>2" using nz [OF that] by simp
    then show ?thesis
      using mono [OF that] by (simp add: r_def power_divide)
  qed
  have rrec: "r (Suc n) = DAMPING * (2 - 1 / r n)" if "N \<le> n" for n
  proof -
    have a: "u n \<noteq> 0" using nz [OF that] .
    have b: "u (Suc n) \<noteq> 0" using nz [of "Suc n"] that by simp
    show ?thesis
      unfolding r_def rec [of n] using a b by (simp add: field_simps)
  qed
  have rnz: "r n \<noteq> 0" if "N \<le> n" for n
    using nz [OF that] nz [of "Suc n"] that by (simp add: r_def)
  have rpos: "0 < r n" if "N \<le> n" for n
  proof (rule ccontr)
    assume "\<not> 0 < r n"
    then have neg: "r n < 0" using rnz [OF that] by simp
    have "- 1 \<le> r n"
    proof (rule ccontr)
      assume "\<not> - 1 \<le> r n"
      then have "1 < - r n" by simp
      then have "1 * 1 < (- r n) * (- r n)" by (intro mult_strict_mono) simp_all
      then show False using rsq [OF that] by (simp add: power2_eq_square)
    qed
    then have "1 / r n \<le> - 1" using neg by (simp add: field_simps)
    then have "2 < r (Suc n)"
      unfolding rrec [OF that] by (simp add: DAMPING_def)
    then have "1 * 1 < r (Suc n) * r (Suc n)" by (intro mult_strict_mono) simp_all
    moreover have "(r (Suc n))\<^sup>2 \<le> 1" using rsq [of "Suc n"] that by simp
    ultimately show False by (simp add: power2_eq_square)
  qed
  have rle: "r n \<le> 1" if "N \<le> n" for n
  proof (rule ccontr)
    assume "\<not> r n \<le> 1"
    then have "1 < r n" by simp
    then have "1 * 1 < r n * r n" by (intro mult_strict_mono) simp_all
    then show False using rsq [OF that] by (simp add: power2_eq_square)
  qed
  have rdec: "r (Suc n) \<le> r n - 0.004975" if "N \<le> n" for n
  proof -
    have p: "0 < r n" and l: "r n \<le> 1" using rpos [OF that] rle [OF that] .
    have "0 \<le> (r n - 0.995)\<^sup>2" by simp
    then have a: "0.004975 \<le> r n * r n - 1.99 * r n + 0.995"
      by (simp add: power2_eq_square algebra_simps)
    have "0.004975 * r n \<le> 0.004975" using l by simp
    then have "0.004975 * r n \<le> r n * r n - 1.99 * r n + 0.995" using a by linarith
    then have "0.995 * (2 - 1 / r n) \<le> r n - 0.004975"
      using p by (simp add: field_simps)
    then show ?thesis
      unfolding rrec [OF that] by (simp add: DAMPING_def)
  qed
  have "r (N + k) \<le> 1 - 0.004975 * real k" for k
  proof (induction k)
    case 0
    then show ?case using rle [of N] by simp
  next
    case (Suc k)
    have "r (Suc (N + k)) \<le> r (N + k) - 0.004975" by (rule rdec) simp
    moreover have "real (Suc k) = real k + 1" by simp
    ultimately have "r (Suc (N + k)) \<le> 1 - 0.004975 * real (Suc k)"
      using Suc by (simp only: distrib_left)
    then show ?case by simp
  qed
  from this [of 202] have "r (N + 202) < 0" by simp
  then show False using rpos [of "N + 202"] by simp
qed

lemma steps_leapfrog:
  assumes "has_shape rows cols (current_grid s)" and "has_shape rows cols (previous_grid s)"
    and "current s < fresh s"
  shows "has_shape rows cols (current_grid ((step ^^ n) s)) \<and>
         has_shape rows cols (previous_grid ((step ^^ n) s)) \<and>
         current ((step ^^ n) s) < fresh ((step ^^ n) s) \<and>
         leapfrog_energy (current_grid ((step ^^ n) s)) (previous_grid ((step ^^ n) s)) =
           DAMPING ^ n * leapfrog_energy (current_grid s) (previous_grid s)"
proof (induction n)
  case 0
  then show ?case using assms by simp
next
  case (Suc n)
  let ?t = "(step ^^ n) s"
  have c: "has_shape rows cols (current_grid ?t)" and p: "has_shape rows cols (previous_grid ?t)"
    and f: "current ?t < fresh ?t"
    and e: "leapfrog_energy (current_grid ?t) (previous_grid ?t) =
           DAMPING ^ n * leapfrog_energy (current_grid s) (previous_grid s)"
    using Suc by simp_all
  have "leapfrog_energy (current_grid (step ?t)) (previous_grid (step ?t)) =
        DAMPING * leapfrog_energy (current_grid ?t) (previous_grid ?t)"
    using f by (simp add: current_grid_step previous_grid_step leapfrog_energy_step [OF c p])
  then show ?case
    using c p f e
    by (simp add: current_grid_step previous_grid_step current_fresh_step has_shape_wave_new)
qed

lemma energy_zeros: "energy (zeros rows cols) = 0"
  by (simp add: energy_sum [OF has_shape_zeros] nth_zeros)

lemma energy_nonneg: "0 \<le> energy g"
  unfolding energy_def by (auto intro!: sum_list_nonneg)

lemma leapfrog_energy_pulse:
  assumes y: "y < rows" and x: "x < cols"
  shows "leapfrog_energy ((zeros rows cols)[y := (zeros rows cols ! y)[x := zeros rows cols ! y ! x + M]])
           (zeros rows cols) = M\<^sup>2"
proof -
  let ?z = "zeros rows cols"
  let ?c = "?z[y := (?z ! y)[x := ?z ! y ! x + M]]"
  have z: "has_shape rows cols ?z" by (rule has_shape_zeros)
  have c: "has_shape rows cols ?c"
    using y x by (auto simp: has_shape_def zeros_def list_all_length nth_list_update)
  have cell: "?c ! i ! j = (if i = y \<and> j = x then M else 0)" if "i < rows" "j < cols" for i j
    using that y x by (auto simp: zeros_def nth_list_update)
  have "(\<Sum>i<rows. \<Sum>j<cols. (?c ! i ! j)\<^sup>2) =
        (\<Sum>i<rows. \<Sum>j<cols. if i = y \<and> j = x then M\<^sup>2 else 0)"
    by (intro sum.cong refl) (simp add: cell)
  also have "\<dots> = (\<Sum>i<rows. if i = y then (\<Sum>j<cols. if j = x then M\<^sup>2 else 0) else 0)"
    by (intro sum.cong refl) simp
  also have "\<dots> = M\<^sup>2" using y x by simp
  finally have e: "energy ?c = M\<^sup>2" by (simp add: energy_sum [OF c])
  have n: "neighbours rows cols (\<lambda>i j. ?z ! i ! j) i j = 0" if "i < rows" "j < cols" for i j
  proof -
    have "wrap (int i - 1) rows < rows" "wrap (int i + 1) rows < rows"
      "wrap (int j - 1) cols < cols" "wrap (int j + 1) cols < cols"
      using that by (simp_all add: wrap_less)
    then show ?thesis using that by (simp add: neighbours_def nth_zeros)
  qed
  have "(\<Sum>i<rows. \<Sum>j<cols. ?c ! i ! j * (neighbours rows cols (\<lambda>i j. ?z ! i ! j) i j / 2)) = 0"
    by (intro sum.neutral ballI) (simp add: n)
  then show ?thesis
    using e by (simp add: leapfrog_energy_sum [OF c z] energy_sum [OF c, symmetric]
        energy_sum [OF z, symmetric] energy_zeros)
qed

text \<open>
  C3, as the code has it (in exact arithmetic). From the all-zero field of any size, after
  one in-bounds \<open>disturb\<close> of magnitude \<open>M\<close> and then \<open>n\<close> calls of \<open>step\<close>: the leapfrog
  energy of the pair (current, previous) is exactly \<open>0.995 ^ n * M^2\<close>, so it shrinks by
  the damping factor at every step; the sum of the squared cell values of \<open>current\<close> is
  at most \<open>200 * M^2 * 0.995 ^ n\<close>; and that sum converges to zero. Nothing is said
  about the sum of squares decreasing from one step to the next.
\<close>

theorem damped_energy_decay:
  assumes "Ripples W H = Inr s0"
    and "0 \<le> x" and "x < W" and "0 \<le> y" and "y < H"
    and "disturb x y M s0 = Inr s1"
  shows "(\<forall>n. leapfrog_energy (current_grid ((step ^^ n) s1)) (previous_grid ((step ^^ n) s1)) =
              DAMPING ^ n * M\<^sup>2) \<and>
         (\<forall>n. energy (current_grid ((step ^^ n) s1)) \<le> 200 * M\<^sup>2 * DAMPING ^ n) \<and>
         (\<lambda>n. energy (current_grid ((step ^^ n) s1))) \<longlonglongrightarrow> 0"
proof -
  let ?rows = "nat H" and ?cols = "nat W"
  let ?z = "zeros ?rows ?cols"
  have wf0: "wf s0" using assms(1) by (rule wf_Ripples)
  have s0: "w s0 = W" "h s0 = H" "current_grid s0 = ?z" "previous_grid s0 = ?z"
    "current s0 \<noteq> previous s0"
    using assms(1) by (auto simp: Ripples_def current_grid_def previous_grid_def split: if_splits)
  have d: "disturb x y M s0 =
     Inr (s0 \<lparr> store := (store s0)(current s0 :=
        (current_grid s0)[nat y :=
           (current_grid s0 ! nat y)[nat x := current_grid s0 ! nat y ! nat x + M]]) \<rparr>)"
    using wf0 assms(2-5) s0(1,2) by (intro disturb_in_bounds) simp_all
  have c1: "current_grid s1 = ?z[nat y := (?z ! nat y)[nat x := ?z ! nat y ! nat x + M]]"
    using d assms(6) s0 by (auto simp: current_grid_def)
  have p1: "previous_grid s1 = ?z"
    using d assms(6) s0 by (auto simp: previous_grid_def current_grid_def)
  have wf1: "wf s1" using wf0 assms(6) by (rule wf_disturb)
  have dims: "w s1 = W" "h s1 = H"
    using d assms(6) s0 by auto
  have sc: "has_shape ?rows ?cols (current_grid s1)"
    and sp: "has_shape ?rows ?cols (previous_grid s1)" and fr: "current s1 < fresh s1"
    using wf1 dims by (simp_all add: wf_def current_grid_def previous_grid_def)
  have g0: "leapfrog_energy (current_grid s1) (previous_grid s1) = M\<^sup>2"
    unfolding c1 p1 using assms(2-5) by (intro leapfrog_energy_pulse) simp_all
  note inv = steps_leapfrog [OF sc sp fr]
  have g: "leapfrog_energy (current_grid ((step ^^ n) s1)) (previous_grid ((step ^^ n) s1)) =
              DAMPING ^ n * M\<^sup>2" for n
    using inv [of n] g0 by simp
  have b: "energy (current_grid ((step ^^ n) s1)) \<le> 200 * M\<^sup>2 * DAMPING ^ n" for n
  proof -
    have "(1 - DAMPING) * energy (current_grid ((step ^^ n) s1)) \<le>
          leapfrog_energy (current_grid ((step ^^ n) s1)) (previous_grid ((step ^^ n) s1))"
      using inv [of n] by (intro energy_le_leapfrog [of ?rows ?cols]) simp_all
    then have "0.005 * energy (current_grid ((step ^^ n) s1)) \<le> DAMPING ^ n * M\<^sup>2"
      unfolding g by (simp add: DAMPING_def)
    then show ?thesis by (simp add: algebra_simps)
  qed
  have "(\<lambda>n. DAMPING ^ n) \<longlonglongrightarrow> 0"
    by (rule LIMSEQ_realpow_zero) (simp_all add: DAMPING_def)
  then have "(\<lambda>n. 200 * M\<^sup>2 * DAMPING ^ n) \<longlonglongrightarrow> 200 * M\<^sup>2 * 0"
    by (rule tendsto_mult_left)
  then have up: "(\<lambda>n. 200 * M\<^sup>2 * DAMPING ^ n) \<longlonglongrightarrow> 0" by simp
  have lim: "(\<lambda>n. energy (current_grid ((step ^^ n) s1))) \<longlonglongrightarrow> 0"
  proof (rule tendsto_sandwich [OF _ _ tendsto_const up])
    show "\<forall>\<^sub>F n in sequentially. 0 \<le> energy (current_grid ((step ^^ n) s1))"
      by (simp add: energy_nonneg)
    show "\<forall>\<^sub>F n in sequentially. energy (current_grid ((step ^^ n) s1)) \<le> 200 * M\<^sup>2 * DAMPING ^ n"
      by (simp add: b)
  qed
  show ?thesis using g b lim by blast
qed

lemma wrap_one: "wrap i 1 = 0" "wrap i (Suc 0) = 0"
  by (simp_all add: wrap_def)

lemma single_cell_step:
  assumes c: "has_shape 1 1 (current_grid s)" and p: "has_shape 1 1 (previous_grid s)"
    and f: "current s < fresh s"
  shows "current_grid (step s) ! 0 ! 0 =
           DAMPING * (2 * current_grid s ! 0 ! 0 - previous_grid s ! 0 ! 0)"
    and "previous_grid (step s) ! 0 ! 0 = current_grid s ! 0 ! 0"
  using c p f
  by (simp_all add: current_grid_step previous_grid_step
      nth_wave_new_neighbours [of 1 1] neighbours_def wrap_one)

text \<open>
  C3 as stated fails: on the field of one cell, after \<open>disturb(0, 0, 1)\<close>, there is no
  step from which on the sum of squares of \<open>current\<close> is non-increasing. The cell value
  \<open>u\<close> obeys \<open>u(n+2) = 0.995 * (2 * u(n+1) - u(n))\<close>, whose solutions oscillate: the
  energy keeps rising again after every fall, however long the initial window.
\<close>

theorem energy_not_monotone_counterexample:
  "\<exists>s0 s1. Ripples 1 1 = Inr s0 \<and> disturb 0 0 1 s0 = Inr s1 \<and>
     \<not> (\<exists>N. \<forall>n\<ge>N. energy (current_grid ((step ^^ Suc n) s1))
                       \<le> energy (current_grid ((step ^^ n) s1)))"
proof -
  obtain s0 where s0: "Ripples 1 1 = Inr s0" by (simp add: Ripples_def)
  have wf0: "wf s0" using s0 by (rule wf_Ripples)
  have dims: "w s0 = 1" "h s0 = 1" using s0 by (auto simp: Ripples_def)
  have z: "current_grid s0 = [[0]]" "previous_grid s0 = [[0]]" "current s0 \<noteq> previous s0"
    using s0 by (auto simp: Ripples_def current_grid_def previous_grid_def zeros_def)
  have "disturb 0 0 1 s0 = Inr (s0 \<lparr> store := (store s0)(current s0 :=
        (current_grid s0)[nat 0 :=
           (current_grid s0 ! nat 0)[nat 0 := current_grid s0 ! nat 0 ! nat 0 + 1]]) \<rparr>)"
    using wf0 dims by (intro disturb_in_bounds) simp_all
  then obtain s1 where d: "disturb 0 0 1 s0 = Inr s1"
    and c1: "current_grid s1 = [[1]]" and p1: "previous_grid s1 = [[0]]"
    using z by (simp add: current_grid_def previous_grid_def)
  have wf1: "wf s1" using wf0 d by (rule wf_disturb)
  have sc: "has_shape 1 1 (current_grid s1)" and sp: "has_shape 1 1 (previous_grid s1)"
    using c1 p1 by (simp_all add: has_shape_def)
  have fr: "current s1 < fresh s1" using wf1 by (simp add: wf_def)
  note inv = steps_leapfrog [OF sc sp fr]
  define u where "u n = current_grid ((step ^^ n) s1) ! 0 ! 0" for n
  have u0: "u 0 \<noteq> 0" using c1 by (simp add: u_def)
  have rec: "u (Suc (Suc n)) = DAMPING * (2 * u (Suc n) - u n)" for n
  proof -
    let ?t = "(step ^^ n) s1"
    have a: "has_shape 1 1 (current_grid ?t)" "has_shape 1 1 (previous_grid ?t)"
      "current ?t < fresh ?t"
      using inv [of n] by simp_all
    have b: "has_shape 1 1 (current_grid (step ?t))" "has_shape 1 1 (previous_grid (step ?t))"
      "current (step ?t) < fresh (step ?t)"
      using inv [of "Suc n"] by simp_all
    have "current_grid (step (step ?t)) ! 0 ! 0 =
          DAMPING * (2 * current_grid (step ?t) ! 0 ! 0 - previous_grid (step ?t) ! 0 ! 0)"
      using b by (rule single_cell_step)
    also have "previous_grid (step ?t) ! 0 ! 0 = current_grid ?t ! 0 ! 0"
      using a by (rule single_cell_step)
    finally show ?thesis by (simp add: u_def)
  qed
  have en: "energy (current_grid ((step ^^ n) s1)) = (u n)\<^sup>2" for n
    using inv [of n] by (simp add: energy_sum [of 1 1] u_def)
  have "\<not> (\<exists>N. \<forall>n\<ge>N. (u (Suc n))\<^sup>2 \<le> (u n)\<^sup>2)"
    using u0 rec by (rule leapfrog_oscillates)
  then have "\<not> (\<exists>N. \<forall>n\<ge>N. energy (current_grid ((step ^^ Suc n) s1))
                       \<le> energy (current_grid ((step ^^ n) s1)))"
    unfolding en .
  then show ?thesis using s0 d by blast
qed

theorem damped_energy_decay_witness:
  "\<exists>s0 s1. Ripples 3 2 = Inr s0 \<and> (0::int) \<le> 1 \<and> (1::int) < 3 \<and> (1::int) < 2 \<and>
     disturb 1 1 2 s0 = Inr s1 \<and>
     current_grid s1 = [[0, 0, 0], [0, 2, 0]] \<and>
     leapfrog_energy (current_grid ((step ^^ 3) s1)) (previous_grid ((step ^^ 3) s1)) =
       DAMPING ^ 3 * 4 \<and>
     energy (current_grid ((step ^^ 3) s1)) \<le> 800 * DAMPING ^ 3 \<and>
     (\<lambda>n. energy (current_grid ((step ^^ n) s1))) \<longlonglongrightarrow> 0"
proof -
  obtain s0 where s0: "Ripples 3 2 = Inr s0" by (simp add: Ripples_def)
  have wf0: "wf s0" using s0 by (rule wf_Ripples)
  have dims: "w s0 = 3" "h s0 = 2" using s0 by (auto simp: Ripples_def)
  have z: "current_grid s0 = [[0, 0, 0], [0, 0, 0]]"
    using s0 by (auto simp: Ripples_def current_grid_def zeros_def numeral_2_eq_2 numeral_3_eq_3)
  obtain s1 where d: "disturb 1 1 2 s0 = Inr s1"
    and c: "current_grid s1 = [[0, 0, 0], [0, 2, 0]]"
    using disturb_in_bounds [OF wf0, of 1 1 2] dims z by (simp add: current_grid_def)
  have b: "(0::int) \<le> 1" "(1::int) < 3" "(0::int) \<le> 1" "(1::int) < 2" by simp_all
  from damped_energy_decay [OF s0 b d]
  have "leapfrog_energy (current_grid ((step ^^ 3) s1)) (previous_grid ((step ^^ 3) s1)) =
       DAMPING ^ 3 * 4"
    and "energy (current_grid ((step ^^ 3) s1)) \<le> 800 * DAMPING ^ 3"
    and "(\<lambda>n. energy (current_grid ((step ^^ n) s1))) \<longlonglongrightarrow> 0"
    by (simp_all del: funpow.simps)
  then show ?thesis using s0 d c by simp
qed

end
